theory Spec2Isabelle
  imports Complex_Main "HOL-Library.Log_Nat" "HOL-Library.Word"
begin

section \<open>Single-precision arithmetic\<close>

text \<open>
  The game keeps the player's rectangle, velocity and timers in C \<open>float\<close>s. A finite
  binary32 value is a rational number, so the model carries rationals and rounds the
  exact result of every operation to the nearest binary32 value, ties to the even
  significand: 24 significant bits, exponents from \<open>-126\<close> with gradual underflow
  below. Infinities and NaN are not represented (results of magnitude \<open>2^128\<close> and more
  stay rationals with a 24-bit significand), and float expressions are evaluated in
  single precision, as on a target with \<open>FLT_EVAL_METHOD = 0\<close>.
\<close>

type_synonym float = rat

definition flog2 :: "rat \<Rightarrow> int" where
  "flog2 x = (case quotient_of \<bar>x\<bar> of (a, b) \<Rightarrow>
     let e0 = bitlen a - bitlen b in if 2 powi e0 \<le> \<bar>x\<bar> then e0 else e0 - 1)"

definition round_half_even :: "rat \<Rightarrow> int" where
  "round_half_even t = (let f = \<lfloor>t\<rfloor>; d = t - of_int f in
     if d < 1 / 2 then f else if 1 / 2 < d then f + 1 else if even f then f else f + 1)"

definition f32 :: "rat \<Rightarrow> float" where
  "f32 x = (if x = 0 then 0 else
     let q = 2 powi (max (flog2 x) (- 126) - 23)
     in of_int (round_half_even (x / q)) * q)"

text \<open>A rational is a binary32 value when rounding leaves it alone.\<close>

definition is_f32 :: "rat \<Rightarrow> bool" where
  "is_f32 x = (f32 x = x)"

definition fadd :: "float \<Rightarrow> float \<Rightarrow> float" where
  "fadd a b = f32 (a + b)"

definition fsub :: "float \<Rightarrow> float \<Rightarrow> float" where
  "fsub a b = f32 (a - b)"

definition fmul :: "float \<Rightarrow> float \<Rightarrow> float" where
  "fmul a b = f32 (a * b)"

definition fdiv :: "float \<Rightarrow> float \<Rightarrow> float" where
  "fdiv a b = f32 (a / b)"

text \<open>Conversion of an \<open>int\<close> to \<open>float\<close> rounds when the integer needs more than 24 bits.\<close>

definition float_of_int :: "int \<Rightarrow> float" where
  "float_of_int n = f32 (of_int n)"

text \<open>\<open>roundf\<close> rounds to the nearest integer, halfway cases away from zero.\<close>

definition roundf :: "float \<Rightarrow> float" where
  "roundf a = (if 0 \<le> a then of_int \<lfloor>a + 1 / 2\<rfloor> else - of_int \<lfloor>- a + 1 / 2\<rfloor>)"

text \<open>
  The cast \<open>(int)\<close> truncates towards zero. The C type \<open>int\<close> is the type of the unbounded
  integers here: signed overflow and a conversion that leaves the range of \<open>int\<close> are
  undefined behaviour in C, so that there is no wrap-around to write out, and the
  statements cover the runs in which neither occurs. Rounding, in contrast, is defined
  behaviour and is part of every \<open>float\<close> operation below.
\<close>

definition int_of_float :: "float \<Rightarrow> int" where
  "int_of_float a = (if 0 \<le> a then \<lfloor>a\<rfloor> else - \<lfloor>- a\<rfloor>)"

section \<open>Configuration\<close>

definition SCREEN_W :: int where "SCREEN_W = 960"
definition SCREEN_H :: int where "SCREEN_H = 540"
definition TILE :: int where "TILE = 48"
definition FPS :: int where "FPS = 60"
definition GRAVITY :: float where "GRAVITY = f32 (6 / 10)"
definition MAX_XSPEED :: float where "MAX_XSPEED = 6"
definition JUMP_VEL :: float where "JUMP_VEL = - 12"

text \<open>The three built-in levels, eight rows each; the rows differ in length.\<close>

definition LEVEL_0 :: "string list" where
  "LEVEL_0 =
    [''                                                                                '',
     ''                                                                                '',
     ''                                                                                '',
     ''                   C                                                            '',
     ''        C                                                                       F'',
     ''    C       E                 C                                                 '',
     ''XXXXXXXXXXXX      XXXX     XXXXXXXX      C                     C               '',
     ''==========ttttttttttttttttttttttttttttttttttttttttttttttttttttttttttttttttttttt'']"

definition LEVEL_1 :: "string list" where
  "LEVEL_1 =
    [''                                                                                '',
     ''                                                                                '',
     ''        C                               C                                       '',
     ''                E                 C                                              '',
     ''    XXXXX        XXXXXX      XXXXXXXX              C               F           '',
     ''          C               C         E                                     C    '',
     ''   C    XXXXXXXXXXXXXXXXXXXXXXXXXXXXXXXXXXXXXXXXXXXXXXXX   C                    '',
     ''==========ttttttttttttttttttttttttttttttttttttttttttttttttttttttttttttttttttttt'']"

definition LEVEL_2 :: "string list" where
  "LEVEL_2 =
    [''                                                                                '',
     ''                                                                                '',
     ''                   C               E                                            '',
     ''        M       XXXX      C      XXXXX       C                          F        '',
     ''    C           X  X              X   X                E                 C      '',
     ''XXXXXXXXXXXX    X  X    C    C    X   X    C    C    X   X    C    C    XXX    '',
     ''==========ttttttttttttttttttttttttttttttttttttttttttttttttttttttttttttttttttttt'',
     ''                                                                                '']"

definition LEVELS :: "string list list" where
  "LEVELS = [LEVEL_0, LEVEL_1, LEVEL_2]"

definition NUM_LEVELS :: int where "NUM_LEVELS = 3"

section \<open>Entities\<close>

record SDL_Rect =
  rx :: int
  ry :: int
  rw :: int
  rh :: int

record SDL_FRect =
  fx :: float
  fy :: float
  fw :: float
  fh :: float

record SDL_FPoint =
  px :: float
  py :: float

text \<open>
  The flags \<open>on_ground\<close>, \<open>big\<close> and \<open>active\<close> are C \<open>int\<close>s tested against zero.
  The player's coin counter is \<open>p_coins\<close> here, since \<open>coins\<close> is also the name of the
  coin store.
\<close>

record Player =
  r :: SDL_FRect
  vx :: float
  vy :: float
  on_ground :: int
  big :: int
  big_timer :: float
  p_coins :: int
  score :: int
  lives :: int
  spawn :: SDL_FPoint

record Enemy =
  e_r :: SDL_Rect
  e_active :: int
  dir :: int
  speed :: float

record Coin =
  c_r :: SDL_Rect
  c_active :: int

record Mushroom =
  m_r :: SDL_Rect
  m_active :: int

definition aabb_int :: "SDL_Rect \<Rightarrow> SDL_Rect \<Rightarrow> bool" where
  "aabb_int a b =
     (\<not> (rx a + rw a \<le> rx b \<or> rx a \<ge> rx b + rw b \<or> ry a + rh a \<le> ry b \<or> ry a \<ge> ry b + rh b))"

section \<open>Level store\<close>

text \<open>
  The global arrays with their counts are lists: \<open>solids_count\<close> is \<open>length (solids lv)\<close>,
  and storing at index \<open>solids_count++\<close> appends. Entries of an array beyond its count are
  never read by the program and are not part of the model.
\<close>

definition MAX_SOLIDS :: nat where "MAX_SOLIDS = 1024"
definition MAX_COINS :: nat where "MAX_COINS = 512"
definition MAX_ENEMIES :: nat where "MAX_ENEMIES = 128"
definition MAX_MUSH :: nat where "MAX_MUSH = 64"

record level =
  solids :: "SDL_Rect list"
  coins :: "Coin list"
  enemies :: "Enemy list"
  mush :: "Mushroom list"
  goal_rect :: SDL_Rect
  goal_exists :: int
  world_width :: int

text \<open>The body of the inner loop of \<open>build_level\<close>: the tile \<open>ch\<close> at column \<open>i\<close>, row \<open>j\<close>.\<close>

definition place_tile :: "int \<Rightarrow> int \<Rightarrow> char \<Rightarrow> level \<Rightarrow> level" where
  "place_tile i j ch lv =
     (let x = i * TILE; y = j * TILE in
      if ch = CHR ''X'' \<or> ch = CHR ''='' then
        (if length (solids lv) < MAX_SOLIDS
         then lv\<lparr>solids := solids lv @ [\<lparr>rx = x, ry = y, rw = TILE, rh = TILE\<rparr>]\<rparr>
         else lv)
      else if ch = CHR ''t'' then
        (if length (solids lv) < MAX_SOLIDS
         then lv\<lparr>solids := solids lv @
                [\<lparr>rx = x, ry = y + TILE div 2, rw = TILE, rh = TILE div 2\<rparr>]\<rparr>
         else lv)
      else if ch = CHR ''C'' then
        (if length (coins lv) < MAX_COINS
         then lv\<lparr>coins := coins lv @
                [\<lparr>c_r = \<lparr>rx = x + TILE div 4, ry = y + TILE div 4,
                         rw = TILE div 2, rh = TILE div 2\<rparr>, c_active = 1\<rparr>]\<rparr>
         else lv)
      else if ch = CHR ''E'' then
        (if length (enemies lv) < MAX_ENEMIES
         then lv\<lparr>enemies := enemies lv @
                [\<lparr>e_r = \<lparr>rx = x + 6, ry = y + 8, rw = TILE - 12, rh = TILE - 16\<rparr>,
                  e_active = 1, dir = - 1, speed = f32 (12 / 10)\<rparr>]\<rparr>
         else lv)
      else if ch = CHR ''M'' then
        (if length (mush lv) < MAX_MUSH
         then lv\<lparr>mush := mush lv @
                [\<lparr>m_r = \<lparr>rx = x + 12, ry = y + 12, rw = TILE - 24, rh = TILE - 24\<rparr>,
                  m_active = 1\<rparr>]\<rparr>
         else lv)
      else if ch = CHR ''F'' then
        lv\<lparr>goal_rect := \<lparr>rx = x + TILE div 2 - 6, ry = y - 4 * TILE, rw = 12, rh = 4 * TILE\<rparr>,
           goal_exists := 1\<rparr>
      else lv)"

text \<open>The inner loop over the characters of one row, and the outer loop over the rows.\<close>

definition scan_row :: "string \<Rightarrow> int \<Rightarrow> level \<Rightarrow> level" where
  "scan_row row j lv = fold (\<lambda>(i, ch). place_tile (int i) j ch) (enumerate 0 row) lv"

definition scan_rows :: "string list \<Rightarrow> level \<Rightarrow> level" where
  "scan_rows g lv = fold (\<lambda>(j, row). scan_row row (int j)) (enumerate 0 g) lv"

text \<open>
  \<open>build_level\<close> overwrites the global store \<open>lv0\<close>. It empties the four arrays and clears
  \<open>goal_exists\<close>, but leaves \<open>goal_rect\<close> as it was. It reads \<open>map_lines[0]\<close> for the width
  and \<open>map_lines[0 .. rows-1]\<close> in the scan; where those reads leave the array the
  behaviour is undefined and the model returns \<open>None\<close>.
\<close>

definition build_level :: "string list \<Rightarrow> int \<Rightarrow> level \<Rightarrow> level option" where
  "build_level map_lines rows lv0 =
     (if map_lines = [] \<or> int (length map_lines) < rows then None
      else Some (scan_rows (take (nat rows) map_lines)
        (lv0\<lparr>solids := [], coins := [], enemies := [], mush := [], goal_exists := 0,
             world_width := int (length (hd map_lines)) * TILE\<rparr>)))"


text \<open>The global store as the program starts: zero-initialised.\<close>

definition initial_store :: level where
  "initial_store = \<lparr>solids = [], coins = [], enemies = [], mush = [],
     goal_rect = \<lparr>rx = 0, ry = 0, rw = 0, rh = 0\<rparr>, goal_exists = 0, world_width = 0\<rparr>"

section \<open>Player collision\<close>

text \<open>
  The integer rectangle \<open>{(int)roundf(fr.x), (int)roundf(fr.y), (int)roundf(fr.w),
  (int)roundf(fr.h)}\<close> that every overlap test of the player is made with.
\<close>

definition int_rect :: "SDL_FRect \<Rightarrow> SDL_Rect" where
  "int_rect fr = \<lparr>rx = int_of_float (roundf (fx fr)), ry = int_of_float (roundf (fy fr)),
                  rw = int_of_float (roundf (fw fr)), rh = int_of_float (roundf (fh fr))\<rparr>"

text \<open>
  The scan \<open>for (i = 0; i < solids_count; i++) if (aabb_int(test, solids[i])) {...; return;}\<close>
  acts on the first overlapping solid in array order: \<open>find\<close>.
\<close>

definition resolve_horz_collision :: "SDL_Rect list \<Rightarrow> Player \<Rightarrow> Player" where
  "resolve_horz_collision sol p =
     (let fr = (r p)\<lparr>fx := fadd (fx (r p)) (vx p)\<rparr>; test = int_rect fr in
      case find (aabb_int test) sol of
        Some s \<Rightarrow>
          (if 0 < vx p then p\<lparr>r := (r p)\<lparr>fx := fsub (float_of_int (rx s)) (fw (r p))\<rparr>, vx := 0\<rparr>
           else if vx p < 0 then p\<lparr>r := (r p)\<lparr>fx := float_of_int (rx s + rw s)\<rparr>, vx := 0\<rparr>
           else p\<lparr>vx := 0\<rparr>)
      | None \<Rightarrow> p\<lparr>r := (r p)\<lparr>fx := fadd (fx (r p)) (vx p)\<rparr>\<rparr>)"

definition resolve_vert_collision :: "SDL_Rect list \<Rightarrow> Player \<Rightarrow> Player" where
  "resolve_vert_collision sol p =
     (let fr = (r p)\<lparr>fy := fadd (fy (r p)) (vy p)\<rparr>; test = int_rect fr;
          p0 = p\<lparr>on_ground := 0\<rparr> in
      case find (aabb_int test) sol of
        Some s \<Rightarrow>
          (if 0 < vy p then
             p0\<lparr>r := (r p)\<lparr>fy := fsub (float_of_int (ry s)) (fh (r p))\<rparr>, on_ground := 1, vy := 0\<rparr>
           else if vy p < 0 then p0\<lparr>r := (r p)\<lparr>fy := float_of_int (ry s + rh s)\<rparr>, vy := 0\<rparr>
           else p0\<lparr>vy := 0\<rparr>)
      | None \<Rightarrow> p0\<lparr>r := (r p)\<lparr>fy := fadd (fy (r p)) (vy p)\<rparr>\<rparr>)"

section \<open>Enemy movement\<close>

text \<open>
  The body of the loop of \<open>update_enemies\<close> for one enemy. The parameter \<open>dt\<close> of the
  source is never read. \<open>oldx\<close> is the \<open>float\<close> the integer position is converted to.
\<close>

definition enemy_step :: "SDL_Rect list \<Rightarrow> Enemy \<Rightarrow> Enemy" where
  "enemy_step sol e =
     (if e_active e = 0 then e
      else
        let oldx = float_of_int (rx (e_r e));
            e1 = e\<lparr>e_r := (e_r e)\<lparr>rx := rx (e_r e) +
                   int_of_float (roundf (fmul (float_of_int (dir e)) (speed e)))\<rparr>\<rparr>;
            e2 = (if list_ex (aabb_int (e_r e1)) sol
                  then e1\<lparr>e_r := (e_r e1)\<lparr>rx := int_of_float (roundf oldx)\<rparr>, dir := dir e1 * (- 1)\<rparr>
                  else e1);
            ahead_x = rx (e_r e2) + (if 0 < dir e2 then rw (e_r e2) + 2 else - 4);
            foot_y = ry (e_r e2) + rh (e_r e2) + 2;
            foot = \<lparr>rx = ahead_x, ry = foot_y, rw = 2, rh = 2\<rparr>;
            found = list_ex (aabb_int foot) sol
        in if \<not> found then e2\<lparr>dir := dir e2 * (- 1)\<rparr> else e2)"

definition update_enemies :: "level \<Rightarrow> level" where
  "update_enemies lv = lv\<lparr>enemies := map (enemy_step (solids lv)) (enemies lv)\<rparr>"

section \<open>Starting a level\<close>

datatype game_state = STATE_TITLE | STATE_PLAY | STATE_LEVEL_CLEAR | STATE_GAME_OVER | STATE_WIN

text \<open>
  The local variables of \<open>main\<close> together with the global store. All calls of
  \<open>SDL_GetTicks\<close> within one frame are given the same reading, an input of the frame.
\<close>

record game =
  state :: game_state
  level_idx :: int
  player :: Player
  level_time :: int
  t0 :: "32 word"
  running :: int
  store :: level

text \<open>
  The drop loop of \<open>start_level\<close>, with the number of iterations left: the speed grows
  by one each round, and the first round in which the rounded rectangle overlaps a solid
  snaps the rectangle on top of the first overlapping solid and leaves the loop.
\<close>

fun drop_loop :: "nat \<Rightarrow> SDL_Rect list \<Rightarrow> float \<Rightarrow> SDL_FRect \<Rightarrow> SDL_FRect" where
  "drop_loop 0 sol v temp = temp"
| "drop_loop (Suc n) sol v temp =
     (let v' = fadd v 1; temp' = temp\<lparr>fy := fadd (fy temp) v'\<rparr> in
      case find (aabb_int (int_rect temp')) sol of
        Some s \<Rightarrow> temp'\<lparr>fy := fsub (float_of_int (ry s)) (fh temp')\<rparr>
      | None \<Rightarrow> drop_loop n sol v' temp')"

text \<open>
  \<open>start_level\<close> reads \<open>LEVELS[idx]\<close>; an index outside the table is undefined
  behaviour, \<open>None\<close> here.
\<close>

definition start_level :: "int \<Rightarrow> 32 word \<Rightarrow> game \<Rightarrow> game option" where
  "start_level idx now g =
     (if idx < 0 \<or> int (length LEVELS) \<le> idx then None
      else case build_level (LEVELS ! nat idx) 8 (store g) of
        None \<Rightarrow> None
      | Some lv \<Rightarrow>
          let spawnx = 60; spawny = 0;
              temp = drop_loop 2000 (solids lv) 0
                \<lparr>fx = float_of_int spawnx, fy = float_of_int spawny,
                 fw = float_of_int (TILE - 12), fh = float_of_int (TILE - 8)\<rparr>;
              pl = (player g)\<lparr>r := temp, vx := 0, vy := 0,
                     spawn := \<lparr>px = fx temp, py = fy temp\<rparr>\<rparr>
          in Some (g\<lparr>store := lv, player := pl, level_time := 300, t0 := now\<rparr>))"


section \<open>The main loop\<close>

datatype SDL_Keycode =
  SDLK_ESCAPE | SDLK_RETURN | SDLK_r | SDLK_z | SDLK_SPACE | SDLK_UP | SDLK_other

datatype SDL_Event = SDL_QUIT | SDL_KEYDOWN SDL_Keycode | SDL_other_event

datatype SDL_Scancode =
  SDL_SCANCODE_LEFT | SDL_SCANCODE_A | SDL_SCANCODE_RIGHT | SDL_SCANCODE_D

text \<open>What one pass of the loop reads from outside: the queued events, the held keys
  and the tick counter.\<close>

record frame_input =
  events :: "SDL_Event list"
  keystate :: "SDL_Scancode \<Rightarrow> bool"
  ticks :: "32 word"

text \<open>The player and the locals of \<open>main\<close> before the first call of \<open>start_level\<close>.\<close>

definition initial_game :: game where
  "initial_game =
     \<lparr>state = STATE_TITLE, level_idx = 0,
      player = \<lparr>r = \<lparr>fx = 0, fy = 0, fw = float_of_int (TILE - 12), fh = float_of_int (TILE - 8)\<rparr>,
                vx = 0, vy = 0, on_ground = 0, big = 0, big_timer = 0,
                p_coins = 0, score = 0, lives = 3, spawn = \<lparr>px = 0, py = 0\<rparr>\<rparr>,
      level_time = 300, t0 = 0, running = 1, store = initial_store\<rparr>"

subsection \<open>Events\<close>

definition handle_keydown :: "32 word \<Rightarrow> SDL_Keycode \<Rightarrow> game \<Rightarrow> game option" where
  "handle_keydown now k g0 =
     (let g = (if k = SDLK_ESCAPE then g0\<lparr>running := 0\<rparr> else g0) in
      if state g = STATE_TITLE \<and> k = SDLK_RETURN then
        start_level 0 now
          (g\<lparr>state := STATE_PLAY, level_idx := 0,
             player := (player g)\<lparr>score := 0, p_coins := 0, lives := 3\<rparr>\<rparr>)
      else if state g = STATE_LEVEL_CLEAR \<and> k = SDLK_RETURN then
        (let g1 = g\<lparr>level_idx := level_idx g + 1\<rparr> in
         if NUM_LEVELS \<le> level_idx g1 then Some (g1\<lparr>state := STATE_WIN\<rparr>)
         else map_option (\<lambda>g2. g2\<lparr>state := STATE_PLAY\<rparr>) (start_level (level_idx g1) now g1))
      else if state g = STATE_GAME_OVER \<and> k = SDLK_RETURN then
        start_level 0 now
          (g\<lparr>state := STATE_PLAY, level_idx := 0,
             player := (player g)\<lparr>score := 0, p_coins := 0, lives := 3\<rparr>\<rparr>)
      else if k = SDLK_r then start_level (level_idx g) now g
      else if k = SDLK_z \<or> k = SDLK_SPACE \<or> k = SDLK_UP then
        (if state g = STATE_PLAY \<and> on_ground (player g) \<noteq> 0
         then Some (g\<lparr>player := (player g)
                \<lparr>vy := fmul JUMP_VEL (if big (player g) \<noteq> 0 then f32 (95 / 100) else 1)\<rparr>\<rparr>)
         else Some g)
      else Some g)"

definition handle_event :: "32 word \<Rightarrow> SDL_Event \<Rightarrow> game \<Rightarrow> game option" where
  "handle_event now ev g =
     (case ev of
        SDL_QUIT \<Rightarrow> Some (g\<lparr>running := 0\<rparr>)
      | SDL_KEYDOWN k \<Rightarrow> handle_keydown now k g
      | SDL_other_event \<Rightarrow> Some g)"

fun poll_events :: "32 word \<Rightarrow> SDL_Event list \<Rightarrow> game \<Rightarrow> game option" where
  "poll_events now [] g = Some g"
| "poll_events now (ev # evs) g =
     (case handle_event now ev g of None \<Rightarrow> None | Some g' \<Rightarrow> poll_events now evs g')"

subsection \<open>Physics of the player\<close>

text \<open>The four steps of the source: horizontal input, gravity, collisions, friction.\<close>

definition apply_input :: "(SDL_Scancode \<Rightarrow> bool) \<Rightarrow> Player \<Rightarrow> Player" where
  "apply_input keys p =
     (let ax0 = 0;
          ax1 = (if keys SDL_SCANCODE_LEFT \<or> keys SDL_SCANCODE_A then fsub ax0 (f32 (9 / 10)) else ax0);
          ax = (if keys SDL_SCANCODE_RIGHT \<or> keys SDL_SCANCODE_D then fadd ax1 (f32 (9 / 10)) else ax1);
          vx1 = fadd (vx p) ax;
          vx2 = (if MAX_XSPEED < vx1 then MAX_XSPEED else vx1)
      in p\<lparr>vx := (if vx2 < - MAX_XSPEED then - MAX_XSPEED else vx2)\<rparr>)"

definition apply_gravity :: "Player \<Rightarrow> Player" where
  "apply_gravity p =
     (let vy1 = fadd (vy p) GRAVITY
      in p\<lparr>vy := (if float_of_int 20 < vy1 then float_of_int 20 else vy1)\<rparr>)"

definition apply_friction :: "Player \<Rightarrow> Player" where
  "apply_friction p =
     (if on_ground p \<noteq> 0 \<and> f32 (1 / 100) < \<bar>vx p\<bar> then
        (let v = fmul (vx p) (f32 (82 / 100)) in p\<lparr>vx := (if \<bar>v\<bar> < f32 (1 / 10) then 0 else v)\<rparr>)
      else p)"

definition move_player :: "(SDL_Scancode \<Rightarrow> bool) \<Rightarrow> SDL_Rect list \<Rightarrow> Player \<Rightarrow> Player" where
  "move_player keys sol p =
     apply_friction
       (resolve_vert_collision sol (resolve_horz_collision sol (apply_gravity (apply_input keys p))))"

subsection \<open>Coins\<close>

definition coin_step :: "Coin \<Rightarrow> Player \<Rightarrow> Coin \<times> Player" where
  "coin_step c p =
     (if c_active c = 0 then (c, p)
      else if aabb_int (int_rect (r p)) (c_r c)
      then (c\<lparr>c_active := 0\<rparr>, p\<lparr>p_coins := p_coins p + 1, score := score p + 100\<rparr>)
      else (c, p))"

fun collect_coins :: "Coin list \<Rightarrow> Player \<Rightarrow> Coin list \<times> Player" where
  "collect_coins [] p = ([], p)"
| "collect_coins (c # cs) p =
     (case coin_step c p of (c', p') \<Rightarrow>
        case collect_coins cs p' of (cs', p'') \<Rightarrow> (c' # cs', p''))"

subsection \<open>Mushrooms: growing\<close>

definition grow :: "Player \<Rightarrow> Player" where
  "grow p = p\<lparr>big := 1,
       r := (r p)\<lparr>fh := fadd (fh (r p)) (float_of_int (TILE div 2)),
                  fy := fsub (fy (r p)) (float_of_int (TILE div 2))\<rparr>,
       big_timer := 12, score := score p + 500\<rparr>"

definition mushroom_step :: "Mushroom \<Rightarrow> Player \<Rightarrow> Mushroom \<times> Player" where
  "mushroom_step m p =
     (if m_active m = 0 then (m, p)
      else if aabb_int (int_rect (r p)) (m_r m)
      then (m\<lparr>m_active := 0\<rparr>, if big p = 0 then grow p else p\<lparr>score := score p + 200\<rparr>)
      else (m, p))"

fun collect_mushrooms :: "Mushroom list \<Rightarrow> Player \<Rightarrow> Mushroom list \<times> Player" where
  "collect_mushrooms [] p = ([], p)"
| "collect_mushrooms (m # ms) p =
     (case mushroom_step m p of (m', p') \<Rightarrow>
        case collect_mushrooms ms p' of (ms', p'') \<Rightarrow> (m' # ms', p''))"

subsection \<open>Contact with enemies: stomping, shrinking, losing a life\<close>

text \<open>
  The statements \<open>big = 0; r.h -= TILE/2; r.y += TILE/2;\<close>, which the source has twice:
  on contact with an enemy and when \<open>big_timer\<close> runs out.
\<close>

definition shrink :: "Player \<Rightarrow> Player" where
  "shrink p = p\<lparr>big := 0,
       r := (r p)\<lparr>fh := fsub (fh (r p)) (float_of_int (TILE div 2)),
                  fy := fadd (fy (r p)) (float_of_int (TILE div 2))\<rparr>\<rparr>"

text \<open>
  The statements \<open>lives--; r.x = spawn.x; r.y = spawn.y; vx = vy = 0;\<close> followed by
  \<open>if (lives <= 0) state = STATE_GAME_OVER\<close>, which the source has three times.
\<close>

definition respawn :: "Player \<Rightarrow> Player" where
  "respawn p = p\<lparr>lives := lives p - 1,
       r := (r p)\<lparr>fx := px (spawn p), fy := py (spawn p)\<rparr>, vx := 0, vy := 0\<rparr>"

definition lose_life :: "Player \<times> game_state \<Rightarrow> Player \<times> game_state" where
  "lose_life ps = (case ps of (p, st) \<Rightarrow>
     let p' = respawn p in (p', if lives p' \<le> 0 then STATE_GAME_OVER else st))"

definition enemy_contact ::
    "Enemy \<Rightarrow> Player \<times> game_state \<Rightarrow> Enemy \<times> Player \<times> game_state" where
  "enemy_contact e ps = (case ps of (p, st) \<Rightarrow>
     if e_active e = 0 then (e, p, st)
     else
       let er = e_r e; pr = int_rect (r p) in
       if aabb_int pr er then
         (if 0 < vy p \<and> fsub (fadd (fy (r p)) (fh (r p))) (float_of_int (ry er)) < 16
          then (e\<lparr>e_active := 0\<rparr>,
                p\<lparr>vy := fmul JUMP_VEL (f32 (6 / 10)), score := score p + 200\<rparr>, st)
          else if big p \<noteq> 0 then (e, shrink p, st)
          else (e, lose_life (p, st)))
       else (e, p, st))"

fun enemy_contacts ::
    "Enemy list \<Rightarrow> Player \<times> game_state \<Rightarrow> Enemy list \<times> Player \<times> game_state" where
  "enemy_contacts [] ps = ([], ps)"
| "enemy_contacts (e # es) ps =
     (case enemy_contact e ps of (e', ps') \<Rightarrow>
        case enemy_contacts es ps' of (es', ps'') \<Rightarrow> (e' # es', ps''))"

subsection \<open>The checks that end the play update\<close>

definition fall_check :: "Player \<times> game_state \<Rightarrow> Player \<times> game_state" where
  "fall_check ps = (case ps of (p, st) \<Rightarrow>
     if float_of_int (SCREEN_H + 200) < fy (r p) then lose_life (p, st) else (p, st))"

definition goal_check :: "level \<Rightarrow> Player \<Rightarrow> game_state \<Rightarrow> game_state" where
  "goal_check lv p st =
     (if goal_exists lv \<noteq> 0 \<and> aabb_int (int_rect (r p)) (goal_rect lv)
      then STATE_LEVEL_CLEAR else st)"

definition big_timer_step :: "Player \<Rightarrow> Player" where
  "big_timer_step p =
     (if big p \<noteq> 0 then
        (let p1 = p\<lparr>big_timer := fsub (big_timer p) (fdiv 1 (float_of_int FPS))\<rparr> in
         if big_timer p1 \<le> 0 then shrink p1 else p1)
      else p)"

text \<open>\<open>level_time - (int)((SDL_GetTicks() - t0) / 1000)\<close>, the subtraction and the division
  in \<open>Uint32\<close>.\<close>

definition time_left :: "32 word \<Rightarrow> game \<Rightarrow> int" where
  "time_left now g = level_time g - uint ((now - t0 g) div 1000)"

definition level_timer_step :: "32 word \<Rightarrow> game \<Rightarrow> game" where
  "level_timer_step now g =
     (if time_left now g \<le> 0 then
        (case lose_life (player g, state g) of (p, st) \<Rightarrow> g\<lparr>player := p, t0 := now, state := st\<rparr>)
      else g)"

subsection \<open>One pass of the loop\<close>

text \<open>The play update up to the loop over the enemies: the player's movement, the coins,
  the mushrooms and the enemies' own movement.\<close>

definition play_before_enemies :: "frame_input \<Rightarrow> game \<Rightarrow> game" where
  "play_before_enemies inp g =
     (let lv = store g;
          p1 = move_player (keystate inp) (solids lv) (player g);
          (cs, p2) = collect_coins (coins lv) p1;
          (ms, p3) = collect_mushrooms (mush lv) p2;
          lv1 = update_enemies (lv\<lparr>coins := cs, mush := ms\<rparr>)
      in g\<lparr>store := lv1, player := p3\<rparr>)"

text \<open>The play update up to and including the fall check, that is, all that runs
  before the goal check.\<close>

definition play_before_goal :: "frame_input \<Rightarrow> game \<Rightarrow> game" where
  "play_before_goal inp g =
     (let g3 = play_before_enemies inp g;
          (es, p4, st4) = enemy_contacts (enemies (store g3)) (player g3, state g3);
          (p5, st5) = fall_check (p4, st4)
      in g3\<lparr>store := (store g3)\<lparr>enemies := es\<rparr>, player := p5, state := st5\<rparr>)"

definition play_update :: "frame_input \<Rightarrow> game \<Rightarrow> game" where
  "play_update inp g =
     (let g1 = play_before_goal inp g;
          g2 = g1\<lparr>state := goal_check (store g1) (player g1) (state g1)\<rparr>;
          g3 = g2\<lparr>player := big_timer_step (player g2)\<rparr>
      in level_timer_step (ticks inp) g3)"

definition frame :: "frame_input \<Rightarrow> game \<Rightarrow> game option" where
  "frame inp g =
     (case poll_events (ticks inp) (events inp) g of
        None \<Rightarrow> None
      | Some g1 \<Rightarrow> Some (if state g1 = STATE_PLAY then play_update inp g1 else g1))"

text \<open>The loop \<open>while (running)\<close> over the inputs of successive passes.\<close>

fun run_frames :: "frame_input list \<Rightarrow> game \<Rightarrow> game option" where
  "run_frames [] g = Some g"
| "run_frames (inp # inps) g =
     (if running g = 0 then Some g
      else case frame inp g of None \<Rightarrow> None | Some g' \<Rightarrow> run_frames inps g')"

section \<open>Notions used in the statements\<close>

text \<open>
  The tiles of a grid in the order the two loops of \<open>build_level\<close> visit them: row by
  row, each row from left to right, as triples of column, row and character.
\<close>

definition cells_row :: "string \<Rightarrow> int \<Rightarrow> (int \<times> int \<times> char) list" where
  "cells_row row j = map (\<lambda>(i, ch). (int i, j, ch)) (enumerate 0 row)"

definition cells :: "string list \<Rightarrow> (int \<times> int \<times> char) list" where
  "cells g = concat (map (\<lambda>(j, row). cells_row row (int j)) (enumerate 0 g))"

definition place_cell :: "int \<times> int \<times> char \<Rightarrow> level \<Rightarrow> level" where
  "place_cell c = (case c of (i, j, ch) \<Rightarrow> place_tile i j ch)"

definition is_solid_char :: "char \<Rightarrow> bool" where
  "is_solid_char ch = (ch = CHR ''X'' \<or> ch = CHR ''='' \<or> ch = CHR ''t'')"

definition solid_rect :: "int \<times> int \<times> char \<Rightarrow> SDL_Rect" where
  "solid_rect c = (case c of (i, j, ch) \<Rightarrow>
     if ch = CHR ''t'' then \<lparr>rx = i * TILE, ry = j * TILE + TILE div 2, rw = TILE, rh = TILE div 2\<rparr>
     else \<lparr>rx = i * TILE, ry = j * TILE, rw = TILE, rh = TILE\<rparr>)"

definition is_flag :: "int \<times> int \<times> char \<Rightarrow> bool" where
  "is_flag c = (snd (snd c) = CHR ''F'')"

definition flag_rect :: "int \<times> int \<times> char \<Rightarrow> SDL_Rect" where
  "flag_rect c = (case c of (i, j, ch) \<Rightarrow>
     \<lparr>rx = i * TILE + TILE div 2 - 6, ry = j * TILE - 4 * TILE, rw = 12, rh = 4 * TILE\<rparr>)"

text \<open>The number of solid characters that the scan meets before it comes to column \<open>i\<close>
  of row \<open>j\<close>.\<close>

definition solids_before :: "string list \<Rightarrow> nat \<Rightarrow> nat \<Rightarrow> nat" where
  "solids_before g i j = length (filter is_solid_char (concat (take j g) @ take i (g ! j)))"

text \<open>The solids that \<open>build_level\<close> stores for the first eight rows of a grid.\<close>

definition built_solids :: "string list \<Rightarrow> SDL_Rect list" where
  "built_solids g =
     take MAX_SOLIDS (map solid_rect (filter (\<lambda>c. is_solid_char (snd (snd c))) (cells (take (nat 8) g))))"

text \<open>The solids that lie in the columns of the spawn rectangle, which \<open>start_level\<close> puts
  at \<open>x = 60\<close> with the width \<open>TILE - 12\<close>.\<close>

definition under_spawn :: "SDL_Rect \<Rightarrow> bool" where
  "under_spawn s = (rx s < 60 + (TILE - 12) \<and> 60 < rx s + rw s)"

text \<open>The rounded rectangle \<open>test\<close> of \<open>resolve_horz_collision\<close>: the player's rectangle
  moved by \<open>vx\<close>.\<close>

definition horz_test :: "Player \<Rightarrow> SDL_Rect" where
  "horz_test p = int_rect ((r p)\<lparr>fx := fadd (fx (r p)) (vx p)\<rparr>)"

text \<open>Whether a rectangle with \<open>float\<close> coordinates and one with integer coordinates
  overlap as rectangles of the plane, before any rounding.\<close>

definition overlaps :: "SDL_FRect \<Rightarrow> SDL_Rect \<Rightarrow> bool" where
  "overlaps a b =
     (of_int (rx b) < fx a + fw a \<and> fx a < of_int (rx b + rw b) \<and>
      of_int (ry b) < fy a + fh a \<and> fy a < of_int (ry b + rh b))"

text \<open>
  The player's rectangle as the program keeps it. The width is \<open>TILE - 12\<close>; the height is
  \<open>TILE - 8\<close>, or half a tile more while the player is big, or, for a player that has
  started a level while big and has shrunk since, half a tile less; and the vertical
  position and the spawn height are binary32 values.
\<close>

definition game_player :: "Player \<Rightarrow> bool" where
  "game_player p =
     (fw (r p) = float_of_int (TILE - 12) \<and>
      fh (r p) \<in> set (if big p = 0
         then [float_of_int (TILE - 8), float_of_int (TILE - 8 - TILE div 2)]
         else [float_of_int (TILE - 8), float_of_int (TILE - 8 + TILE div 2)]) \<and>
      is_f32 (fy (r p)) \<and> is_f32 (py (spawn p)))"

text \<open>The mushrooms that \<open>build_level\<close> stores for the first eight rows of a grid.\<close>

definition mushroom_at :: "int \<times> int \<times> char \<Rightarrow> Mushroom" where
  "mushroom_at c = (case c of (i, j, ch) \<Rightarrow>
     \<lparr>m_r = \<lparr>rx = i * TILE + 12, ry = j * TILE + 12, rw = TILE - 24, rh = TILE - 24\<rparr>,
      m_active = 1\<rparr>)"

definition built_mush :: "string list \<Rightarrow> Mushroom list" where
  "built_mush g =
     take MAX_MUSH (map mushroom_at (filter (\<lambda>c. snd (snd c) = CHR ''M'') (cells (take (nat 8) g))))"

text \<open>
  Where \<open>build_level\<close> puts things: the top of a solid is a multiple of half a tile, and
  an enemy is 8 pixels below the top of its row and \<open>TILE - 16\<close> high.
\<close>

definition solid_on_grid :: "SDL_Rect \<Rightarrow> bool" where
  "solid_on_grid s = (ry s mod (TILE div 2) = 0)"

definition enemy_on_grid :: "Enemy \<Rightarrow> bool" where
  "enemy_on_grid e = (ry (e_r e) mod TILE = 8 \<and> rh (e_r e) = TILE - 16)"

text \<open>The numbers of coins, enemies and mushrooms of a store that are still active.\<close>

definition active_coins :: "Coin list \<Rightarrow> int" where
  "active_coins cs = int (length (filter (\<lambda>c. c_active c \<noteq> 0) cs))"

definition active_enemies :: "Enemy list \<Rightarrow> int" where
  "active_enemies es = int (length (filter (\<lambda>e. e_active e \<noteq> 0) es))"

definition active_mush :: "Mushroom list \<Rightarrow> int" where
  "active_mush ms = int (length (filter (\<lambda>m. m_active m \<noteq> 0) ms))"

text \<open>The number of active coins that the player's rounded rectangle overlaps: the coins
  that one pass of the coin loop collects.\<close>

definition coin_hits :: "Coin list \<Rightarrow> Player \<Rightarrow> int" where
  "coin_hits cs p =
     int (length (filter (\<lambda>c. c_active c \<noteq> 0 \<and> aabb_int (int_rect (r p)) (c_r c)) cs))"

text \<open>
  Book-keeping over a run of the main loop: \<open>over_run f inps g\<close> adds up \<open>f inp g1\<close> over the
  passes in which the play update runs, \<open>g1\<close> being the game after the events of the pass.
  With it, the coins collected in a run (in each pass, the active coins under the rounded
  rectangle of the player when the coin loop starts), the enemies stomped and the
  mushrooms taken (in each pass, the enemies and mushrooms that the play update turns from
  active to inactive), and the number of times the player has grown.
\<close>

fun over_run :: "(frame_input \<Rightarrow> game \<Rightarrow> int) \<Rightarrow> frame_input list \<Rightarrow> game \<Rightarrow> int" where
  "over_run f [] g = 0"
| "over_run f (inp # inps) g =
     (if running g = 0 then 0
      else case poll_events (ticks inp) (events inp) g of
        None \<Rightarrow> 0
      | Some g1 \<Rightarrow>
          if state g1 = STATE_PLAY then f inp g1 + over_run f inps (play_update inp g1)
          else over_run f inps g1)"

definition coins_in_pass :: "frame_input \<Rightarrow> game \<Rightarrow> int" where
  "coins_in_pass inp g =
     coin_hits (coins (store g)) (move_player (keystate inp) (solids (store g)) (player g))"

definition stomps_in_pass :: "frame_input \<Rightarrow> game \<Rightarrow> int" where
  "stomps_in_pass inp g =
     active_enemies (enemies (store g)) - active_enemies (enemies (store (play_update inp g)))"

definition mushrooms_in_pass :: "frame_input \<Rightarrow> game \<Rightarrow> int" where
  "mushrooms_in_pass inp g =
     active_mush (mush (store g)) - active_mush (mush (store (play_update inp g)))"

text \<open>Whether the mushroom loop of a pass makes the player grow: 1 if so, 0 if not.\<close>

definition grows_in_pass :: "frame_input \<Rightarrow> game \<Rightarrow> int" where
  "grows_in_pass inp g =
     (if big (player g) = 0 \<and> big (player (play_before_enemies inp g)) \<noteq> 0 then 1 else 0)"

definition coins_taken :: "frame_input list \<Rightarrow> game \<Rightarrow> int" where
  "coins_taken = over_run coins_in_pass"

definition enemies_stomped :: "frame_input list \<Rightarrow> game \<Rightarrow> int" where
  "enemies_stomped = over_run stomps_in_pass"

definition mushrooms_taken :: "frame_input list \<Rightarrow> game \<Rightarrow> int" where
  "mushrooms_taken = over_run mushrooms_in_pass"

definition times_grown :: "frame_input list \<Rightarrow> game \<Rightarrow> int" where
  "times_grown = over_run grows_in_pass"

section \<open>Concrete states for the instances\<close>

text \<open>A store in which all four arrays are full.\<close>

definition full_store :: level where
  "full_store = initial_store
     \<lparr>solids := replicate MAX_SOLIDS \<lparr>rx = 0, ry = 0, rw = 48, rh = 48\<rparr>,
      coins := replicate MAX_COINS \<lparr>c_r = \<lparr>rx = 12, ry = 12, rw = 24, rh = 24\<rparr>, c_active = 1\<rparr>,
      enemies := replicate MAX_ENEMIES
        \<lparr>e_r = \<lparr>rx = 6, ry = 8, rw = 36, rh = 32\<rparr>, e_active = 1, dir = - 1, speed = f32 (12 / 10)\<rparr>,
      mush := replicate MAX_MUSH \<lparr>m_r = \<lparr>rx = 12, ry = 12, rw = 24, rh = 24\<rparr>, m_active = 1\<rparr>\<rparr>"

text \<open>A small player at height \<open>150.5\<close> on the mushroom of the third level, and an
  enemy the grown player touches.\<close>

definition player_at_mushroom :: Player where
  "player_at_mushroom =
     \<lparr>r = \<lparr>fx = 396, fy = 301 / 2, fw = 36, fh = 40\<rparr>, vx = 0, vy = 0, on_ground = 0,
      big = 0, big_timer = 0, p_coins = 0, score = 0, lives = 3, spawn = \<lparr>px = 60, py = 200\<rparr>\<rparr>"

definition mushroom_3 :: Mushroom where
  "mushroom_3 = \<lparr>m_r = \<lparr>rx = 396, ry = 156, rw = 24, rh = 24\<rparr>, m_active = 1\<rparr>"

definition enemy_at_mushroom :: Enemy where
  "enemy_at_mushroom =
     \<lparr>e_r = \<lparr>rx = 396, ry = 130, rw = 36, rh = 32\<rparr>, e_active = 1, dir = - 1, speed = f32 (12 / 10)\<rparr>"

text \<open>
  The enemy of the first level, at column 12 of row 5, and an enemy one column further
  right. A small player falling between the two, a player walking at the height of the
  enemy, the falling player with its bottom edge \<open>2^-16\<close> less than 16 below the enemy's
  top, and the walking player a quarter of a pixel inside the enemy's left edge.
\<close>

definition enemy_1 :: Enemy where
  "enemy_1 = \<lparr>e_r = \<lparr>rx = 582, ry = 248, rw = 36, rh = 32\<rparr>, e_active = 1, dir = - 1,
     speed = f32 (12 / 10)\<rparr>"

definition enemy_2 :: Enemy where
  "enemy_2 = \<lparr>e_r = \<lparr>rx = 630, ry = 248, rw = 36, rh = 32\<rparr>, e_active = 1, dir = - 1,
     speed = f32 (12 / 10)\<rparr>"

definition falling_player :: Player where
  "falling_player =
     \<lparr>r = \<lparr>fx = 600, fy = 210, fw = 36, fh = 40\<rparr>, vx = 0, vy = 3, on_ground = 0,
      big = 0, big_timer = 0, p_coins = 2, score = 700, lives = 3, spawn = \<lparr>px = 60, py = 248\<rparr>\<rparr>"

definition walking_player :: Player where
  "walking_player =
     \<lparr>r = \<lparr>fx = 550, fy = 248, fw = 36, fh = 40\<rparr>, vx = 4, vy = 0, on_ground = 1,
      big = 0, big_timer = 0, p_coins = 2, score = 700, lives = 3, spawn = \<lparr>px = 60, py = 248\<rparr>\<rparr>"

definition late_stomper :: Player where
  "late_stomper = falling_player\<lparr>r := \<lparr>fx = 600, fy = 224 - 1 / 2 ^ 16, fw = 36, fh = 40\<rparr>\<rparr>"

definition grazing_walker :: Player where
  "grazing_walker = walking_player\<lparr>r := \<lparr>fx = 2185 / 4, fy = 248, fw = 36, fh = 40\<rparr>\<rparr>"

text \<open>Three coins of which the walking player touches the first two.\<close>

definition three_coins :: "Coin list" where
  "three_coins =
     [\<lparr>c_r = \<lparr>rx = 560, ry = 250, rw = 24, rh = 24\<rparr>, c_active = 1\<rparr>,
      \<lparr>c_r = \<lparr>rx = 570, ry = 260, rw = 24, rh = 24\<rparr>, c_active = 1\<rparr>,
      \<lparr>c_r = \<lparr>rx = 924, ry = 156, rw = 24, rh = 24\<rparr>, c_active = 1\<rparr>]"

text \<open>
  In the first level the ground between the columns 12 and 17 is the half tile of row 7,
  and the tile at column 18 of row 6, whose left edge is at 864, is a wall for a player
  that stands there. A player walking right towards that wall, and a player that one more
  step takes a quarter of a pixel into it.
\<close>

definition player_at_wall :: Player where
  "player_at_wall =
     \<lparr>r = \<lparr>fx = 1653 / 2, fy = 320, fw = 36, fh = 40\<rparr>, vx = 4, vy = 0, on_ground = 1,
      big = 0, big_timer = 0, p_coins = 0, score = 0, lives = 3, spawn = \<lparr>px = 60, py = 248\<rparr>\<rparr>"

definition grazing_player :: Player where
  "grazing_player =
     \<lparr>r = \<lparr>fx = 3311 / 4, fy = 320, fw = 36, fh = 40\<rparr>, vx = 1 / 2, vy = 0, on_ground = 1,
      big = 0, big_timer = 0, p_coins = 0, score = 0, lives = 3, spawn = \<lparr>px = 60, py = 248\<rparr>\<rparr>"





text \<open>A game in which a big player, with the tall rectangle and some score, starts a
  level.\<close>

definition big_game :: game where
  "big_game = initial_game
     \<lparr>state := STATE_LEVEL_CLEAR, level_idx := 1,
      player := (player initial_game)
        \<lparr>r := \<lparr>fx = 3000, fy = 100, fw = 36, fh = 64\<rparr>, vx := 5, vy := - 3, on_ground := 1, big := 1,
         big_timer := 7, p_coins := 4, score := 1100, lives := 2\<rparr>\<rparr>"

text \<open>
  A game in play on the last life, on the level built from a grid with a solid at column
  0 and the flag at column 1 of row 5: the player stands on the solid, inside the goal
  rectangle, whose left edge is at 66. In \<open>grazing_goal_game\<close> the player stands further
  left, a quarter of a pixel inside the goal rectangle. In \<open>late_input\<close> the 300 seconds of
  the level are over, in \<open>early_input\<close> one second has passed; no key is held and no event
  is queued. \<open>idle_inputs\<close> are two further passes in which keys other than Enter are
  pressed.
\<close>

definition no_keys :: "SDL_Scancode \<Rightarrow> bool" where
  "no_keys k = False"

definition goal_grid :: "string list" where
  "goal_grid = [''  '', ''  '', ''  '', ''  '', ''  '', ''XF'']"

definition goal_game :: game where
  "goal_game =
     \<lparr>state = STATE_PLAY, level_idx = 0,
      player = \<lparr>r = \<lparr>fx = 38, fy = 200, fw = 36, fh = 40\<rparr>, vx = 0, vy = 0, on_ground = 1,
                big = 0, big_timer = 0, p_coins = 0, score = 0, lives = 1,
                spawn = \<lparr>px = 38, py = 200\<rparr>\<rparr>,
      level_time = 300, t0 = 0, running = 1,
      store = the (build_level goal_grid 6 initial_store)\<rparr>"

definition grazing_goal_game :: game where
  "grazing_goal_game =
     goal_game\<lparr>player := (player goal_game)\<lparr>r := \<lparr>fx = 121 / 4, fy = 200, fw = 36, fh = 40\<rparr>\<rparr>\<rparr>"

definition late_input :: frame_input where
  "late_input = \<lparr>events = [], keystate = no_keys, ticks = 300000\<rparr>"

definition early_input :: frame_input where
  "early_input = \<lparr>events = [], keystate = no_keys, ticks = 1000\<rparr>"

definition idle_inputs :: "frame_input list" where
  "idle_inputs =
     [\<lparr>events = [SDL_KEYDOWN SDLK_z, SDL_other_event], keystate = no_keys, ticks = 1016\<rparr>,
      \<lparr>events = [SDL_KEYDOWN SDLK_r], keystate = no_keys, ticks = 1033\<rparr>]"

text \<open>A game in play in which the walking player stands over the first two of the three
  coins, and two passes of the loop, the second with a key pressed.\<close>

definition coin_game :: game where
  "coin_game =
     \<lparr>state = STATE_PLAY, level_idx = 0, player = walking_player,
      level_time = 300, t0 = 0, running = 1,
      store = initial_store
        \<lparr>solids := [\<lparr>rx = 528, ry = 288, rw = 48, rh = 48\<rparr>, \<lparr>rx = 576, ry = 288, rw = 48, rh = 48\<rparr>],
         coins := three_coins, world_width := 960\<rparr>\<rparr>"

definition two_passes :: "frame_input list" where
  "two_passes =
     [\<lparr>events = [], keystate = no_keys, ticks = 16\<rparr>,
      \<lparr>events = [SDL_KEYDOWN SDLK_z], keystate = no_keys, ticks = 33\<rparr>]"

text \<open>
  Two games in play with the falling player, on levels built from grids: one with enemies
  at the columns 12 and 13 of row 5, the other with a coin at column 12 of row 4 above an
  enemy at column 12 of row 5.
\<close>

definition two_enemy_grid :: "string list" where
  "two_enemy_grid =
     [''              '', ''              '', ''              '', ''              '',
      ''              '', ''            EE'']"

definition two_enemy_game :: game where
  "two_enemy_game =
     \<lparr>state = STATE_PLAY, level_idx = 0, player = falling_player,
      level_time = 300, t0 = 0, running = 1,
      store = the (build_level two_enemy_grid 6 initial_store)\<rparr>"

definition stomp_coin_grid :: "string list" where
  "stomp_coin_grid =
     [''             '', ''             '', ''             '', ''             '',
      ''            C'', ''            E'']"

definition stomp_coin_game :: game where
  "stomp_coin_game =
     \<lparr>state = STATE_PLAY, level_idx = 0, player = falling_player,
      level_time = 300, t0 = 0, running = 1,
      store = the (build_level stomp_coin_grid 6 initial_store)\<rparr>"

section \<open>The level builder\<close>

lemma scan_row_cells: "scan_row row j lv = fold place_cell (cells_row row j) lv"
  by (simp add: scan_row_def cells_row_def fold_map comp_def place_cell_def split_def)

lemma scan_rows_cells: "scan_rows g lv = fold place_cell (cells g) lv"
proof -
  have "fold (\<lambda>(j, row). scan_row row (int j)) xs lv
        = fold place_cell (concat (map (\<lambda>(j, row). cells_row row (int j)) xs)) lv" for xs
    by (induction xs arbitrary: lv) (auto simp: scan_row_cells)
  then show ?thesis by (simp add: scan_rows_def cells_def)
qed

lemma solids_place_cell:
  "solids (place_cell c lv) =
     (if is_solid_char (snd (snd c)) \<and> length (solids lv) < MAX_SOLIDS
      then solids lv @ [solid_rect c] else solids lv)"
  by (cases c) (simp add: place_cell_def place_tile_def is_solid_char_def solid_rect_def Let_def)

lemma solids_fold_place:
  "length (solids lv) \<le> MAX_SOLIDS \<Longrightarrow>
   solids (fold place_cell cs lv) =
     take MAX_SOLIDS (solids lv @ map solid_rect (filter (\<lambda>c. is_solid_char (snd (snd c))) cs))"
proof (induction cs arbitrary: lv)
  case Nil
  then show ?case by simp
next
  case (Cons c cs)
  show ?case
  proof (cases "is_solid_char (snd (snd c)) \<and> length (solids lv) < MAX_SOLIDS")
    case True
    then have "length (solids (place_cell c lv)) \<le> MAX_SOLIDS"
      by (simp add: solids_place_cell)
    from Cons.IH [OF this] True show ?thesis
      by (simp add: solids_place_cell)
  next
    case False
    then have eq: "solids (place_cell c lv) = solids lv"
      by (simp add: solids_place_cell)
    with Cons.prems have "length (solids (place_cell c lv)) \<le> MAX_SOLIDS" by simp
    from Cons.IH [OF this] eq False Cons.prems show ?thesis
      by (auto simp: not_less)
  qed
qed

lemma chars_of_cells: "map (\<lambda>c. snd (snd c)) (cells g) = concat g"
proof -
  have row: "map (\<lambda>c. snd (snd c)) (cells_row row j) = row" for row j
    by (simp add: cells_row_def comp_def split_def flip: map_map [unfolded comp_def])
  have "map (\<lambda>c. snd (snd c)) (concat (map (\<lambda>(j, row). cells_row row (int j)) (enumerate n g)))
        = concat g" for n
    by (induction g arbitrary: n) (simp_all add: row)
  then show ?thesis by (simp add: cells_def)
qed

lemma count_solid_cells:
  "length (filter (\<lambda>c. is_solid_char (snd (snd c))) (cells g)) = length (filter is_solid_char (concat g))"
proof -
  have "length (filter (\<lambda>c. is_solid_char (snd (snd c))) (cells g))
        = length (filter is_solid_char (map (\<lambda>c. snd (snd c)) (cells g)))"
    by (simp add: filter_map comp_def)
  then show ?thesis by (simp add: chars_of_cells)
qed

lemma one_in_enumerate:
  "length (filter (\<lambda>p. fst p = i \<and> P (snd p)) (enumerate n xs))
   = (if n \<le> i \<and> i < n + length xs \<and> P (xs ! (i - n)) then 1 else 0)"
proof (induction xs arbitrary: n)
  case Nil
  then show ?case by simp
next
  case (Cons x xs)
  show ?case
  proof (cases "i = n")
    case True
    then show ?thesis using Cons.IH [of "Suc n"] by simp
  next
    case False
    then show ?thesis using Cons.IH [of "Suc n"] by (auto simp: nth_Cons' Suc_diff_Suc)
  qed
qed

lemma one_cell_in_row:
  "length (filter (\<lambda>c. fst c = int i \<and> fst (snd c) = int j \<and> P (snd (snd c))) (cells_row row (int k)))
   = (if j = k \<and> i < length row \<and> P (row ! i) then 1 else 0)"
proof -
  have "filter (\<lambda>c. fst c = int i \<and> fst (snd c) = int j \<and> P (snd (snd c))) (cells_row row (int k))
        = map (\<lambda>(i, ch). (int i, int k, ch))
            (filter (\<lambda>p. fst p = i \<and> (k = j \<and> P (snd p))) (enumerate 0 row))"
    by (simp add: cells_row_def filter_map comp_def split_def)
  then show ?thesis
    using one_in_enumerate [of i "\<lambda>ch. k = j \<and> P ch" 0 row] by auto
qed

lemma one_cell_in_rows:
  "length (filter (\<lambda>c. fst c = int i \<and> fst (snd c) = int j \<and> P (snd (snd c)))
       (concat (map (\<lambda>(j, row). cells_row row (int j)) (enumerate n g))))
   = (if n \<le> j \<and> j < n + length g \<and> i < length (g ! (j - n)) \<and> P (g ! (j - n) ! i)
      then 1 else 0)"
proof (induction g arbitrary: n)
  case Nil
  then show ?case by simp
next
  case (Cons row g)
  show ?case
  proof (cases "j = n")
    case True
    then show ?thesis
      using Cons.IH [of "Suc n"] one_cell_in_row [of i j P row n] by simp
  next
    case False
    then show ?thesis
      using Cons.IH [of "Suc n"] one_cell_in_row [of i j P row n]
      by (auto simp: nth_Cons' Suc_diff_Suc)
  qed
qed

lemma one_cell_in_grid:
  "length (filter (\<lambda>c. fst c = int i \<and> fst (snd c) = int j \<and> P (snd (snd c))) (cells g))
   = (if j < length g \<and> i < length (g ! j) \<and> P (g ! j ! i) then 1 else 0)"
  using one_cell_in_rows [of i j P 0 g] by (simp add: cells_def)


lemma build_level_Some:
  "build_level map_lines rows lv0 = Some lv \<longleftrightarrow>
     map_lines \<noteq> [] \<and> rows \<le> int (length map_lines) \<and>
     lv = fold place_cell (cells (take (nat rows) map_lines))
        (lv0\<lparr>solids := [], coins := [], enemies := [], mush := [], goal_exists := 0,
             world_width := int (length (hd map_lines)) * TILE\<rparr>)"
  by (auto simp: build_level_def scan_rows_cells)

lemma solids_build_level:
  assumes "build_level map_lines rows lv0 = Some lv"
  shows "solids lv = take MAX_SOLIDS
    (map solid_rect (filter (\<lambda>c. is_solid_char (snd (snd c))) (cells (take (nat rows) map_lines))))"
  using assms by (simp add: build_level_Some solids_fold_place)

lemma count_list_map_filter:
  "count_list (map f xs) y = length (filter (\<lambda>x. f x = y) xs)"
  by (induction xs) auto

lemma full_solid_rect_iff:
  "is_solid_char (snd (snd c)) \<and> solid_rect c = \<lparr>rx = i * TILE, ry = j * TILE, rw = TILE, rh = TILE\<rparr>
   \<longleftrightarrow> fst c = i \<and> fst (snd c) = j \<and> (snd (snd c) = CHR ''X'' \<or> snd (snd c) = CHR ''='')"
  by (cases c) (auto simp: is_solid_char_def solid_rect_def TILE_def)

lemma within_caps_place_cell:
  assumes "length (solids lv) \<le> MAX_SOLIDS \<and> length (coins lv) \<le> MAX_COINS \<and>
           length (enemies lv) \<le> MAX_ENEMIES \<and> length (mush lv) \<le> MAX_MUSH"
  shows "length (solids (place_cell c lv)) \<le> MAX_SOLIDS \<and>
         length (coins (place_cell c lv)) \<le> MAX_COINS \<and>
         length (enemies (place_cell c lv)) \<le> MAX_ENEMIES \<and>
         length (mush (place_cell c lv)) \<le> MAX_MUSH"
  using assms by (cases c) (simp add: place_cell_def place_tile_def Let_def)

lemma within_caps_fold:
  assumes "length (solids lv) \<le> MAX_SOLIDS \<and> length (coins lv) \<le> MAX_COINS \<and>
           length (enemies lv) \<le> MAX_ENEMIES \<and> length (mush lv) \<le> MAX_MUSH"
  shows "length (solids (fold place_cell cs lv)) \<le> MAX_SOLIDS \<and>
         length (coins (fold place_cell cs lv)) \<le> MAX_COINS \<and>
         length (enemies (fold place_cell cs lv)) \<le> MAX_ENEMIES \<and>
         length (mush (fold place_cell cs lv)) \<le> MAX_MUSH"
  using assms
proof (induction cs arbitrary: lv)
  case Nil
  then show ?case by simp
next
  case (Cons c cs)
  from Cons.IH [OF within_caps_place_cell [OF Cons.prems]] show ?case by simp
qed

lemma goal_place_cell:
  "goal_exists (place_cell c lv) = (if is_flag c then 1 else goal_exists lv)"
  "goal_rect (place_cell c lv) = (if is_flag c then flag_rect c else goal_rect lv)"
  by (cases c; simp add: place_cell_def place_tile_def Let_def is_flag_def flag_rect_def)+

lemma goal_fold_place:
  "goal_exists (fold place_cell cs lv) = (if filter is_flag cs = [] then goal_exists lv else 1)"
  "goal_rect (fold place_cell cs lv) =
     (if filter is_flag cs = [] then goal_rect lv else flag_rect (last (filter is_flag cs)))"
  by (induction cs rule: rev_induct; simp add: goal_place_cell)+

lemma flag_in_cells: "filter is_flag (cells g) = [] \<longleftrightarrow> CHR ''F'' \<notin> set (concat g)"
proof -
  have "filter is_flag (cells g) = [] \<longleftrightarrow> CHR ''F'' \<notin> set (map (\<lambda>c. snd (snd c)) (cells g))"
    by (force simp: filter_empty_conv is_flag_def image_iff)
  then show ?thesis by (simp only: chars_of_cells)
qed

lemma enumerate_replicate:
  "enumerate k (replicate n c) = map (\<lambda>i. (i, c)) [k..<k + n]"
  by (induction n arbitrary: k) (simp_all add: upt_conv_Cons)

lemma cells_one_row_of_X:
  "cells [replicate n (CHR ''X'')] = map (\<lambda>i. (int i, 0, CHR ''X'')) [0..<n]"
  by (simp add: cells_def cells_row_def enumerate_replicate comp_def)


text \<open>The mushrooms of a built level, in scan order up to the capacity.\<close>

lemma mush_place_cell:
  "mush (place_cell c lv) =
     (if snd (snd c) = CHR ''M'' \<and> length (mush lv) < MAX_MUSH
      then mush lv @ [mushroom_at c] else mush lv)"
  by (cases c) (simp add: place_cell_def place_tile_def mushroom_at_def Let_def)

lemma mush_fold_place:
  "length (mush lv) \<le> MAX_MUSH \<Longrightarrow>
   mush (fold place_cell cs lv) =
     take MAX_MUSH (mush lv @ map mushroom_at (filter (\<lambda>c. snd (snd c) = CHR ''M'') cs))"
proof (induction cs arbitrary: lv)
  case Nil
  then show ?case by simp
next
  case (Cons c cs)
  show ?case
  proof (cases "snd (snd c) = CHR ''M'' \<and> length (mush lv) < MAX_MUSH")
    case True
    then have "length (mush (place_cell c lv)) \<le> MAX_MUSH"
      by (simp add: mush_place_cell)
    from Cons.IH [OF this] True show ?thesis
      by (simp add: mush_place_cell)
  next
    case False
    then have eq: "mush (place_cell c lv) = mush lv"
      by (simp add: mush_place_cell)
    with Cons.prems have "length (mush (place_cell c lv)) \<le> MAX_MUSH" by simp
    from Cons.IH [OF this] eq False Cons.prems show ?thesis
      by (auto simp: not_less)
  qed
qed

lemma mush_build_level:
  assumes "build_level map_lines 8 lv0 = Some lv"
  shows "mush lv = built_mush map_lines"
  using assms by (simp add: build_level_Some mush_fold_place built_mush_def)

text \<open>
  Where \<open>build_level\<close> puts solids and enemies. The top of every solid is a multiple of
  half a tile. Every enemy is 8 pixels below the top of its row and \<open>TILE - 16\<close> high, and
  moving an enemy changes neither.
\<close>

lemma solid_rect_on_grid: "solid_on_grid (solid_rect c)"
proof -
  obtain i j ch where c: "c = (i, j, ch)" by (cases c)
  have "(j * 48 + 24) mod 24 = 0" "(j * 48) mod 24 = 0" by presburger+
  then show ?thesis by (simp add: c solid_rect_def solid_on_grid_def TILE_def)
qed

lemma solids_on_grid:
  assumes "build_level map_lines rows lv0 = Some lv" and "s \<in> set (solids lv)"
  shows "solid_on_grid s"
proof -
  from assms(2) have "s \<in> set (map solid_rect
      (filter (\<lambda>c. is_solid_char (snd (snd c))) (cells (take (nat rows) map_lines))))"
    unfolding solids_build_level [OF assms(1)] by (rule in_set_takeD)
  then show ?thesis by (auto simp: solid_rect_on_grid)
qed

lemma enemies_place_cell_on_grid:
  assumes "list_all enemy_on_grid (enemies lv)"
  shows "list_all enemy_on_grid (enemies (place_cell c lv))"
proof -
  obtain i j ch where c: "c = (i, j, ch)" by (cases c)
  have "(j * 48 + 8) mod 48 = 8" by presburger
  with assms show ?thesis
    by (simp add: c place_cell_def place_tile_def Let_def enemy_on_grid_def TILE_def)
qed

lemma enemies_fold_on_grid:
  "list_all enemy_on_grid (enemies lv) \<Longrightarrow> list_all enemy_on_grid (enemies (fold place_cell cs lv))"
  by (induction cs arbitrary: lv) (simp_all add: enemies_place_cell_on_grid)

lemma enemies_on_grid:
  assumes "build_level map_lines rows lv0 = Some lv" and "e \<in> set (enemies lv)"
  shows "enemy_on_grid e"
proof -
  from assms(1) have "list_all enemy_on_grid (enemies lv)"
    by (simp add: build_level_Some enemies_fold_on_grid)
  with assms(2) show ?thesis by (simp add: list_all_iff)
qed

lemma enemy_step_on_grid: "enemy_on_grid (enemy_step sol e) = enemy_on_grid e"
  by (simp add: enemy_step_def enemy_on_grid_def Let_def)

lemma cells_split:
  assumes "j < length g" and "i < length (g ! j)"
  shows "\<exists>rest. cells g =
     (cells (take j g) @ cells_row (take i (g ! j)) (int j)) @ (int i, int j, g ! j ! i) # rest"
proof -
  let ?f = "\<lambda>(j, row). cells_row row (int j)"
  have g: "g = take j g @ (g ! j) # drop (Suc j) g"
    using assms(1) by (simp add: id_take_nth_drop)
  have row: "g ! j = take i (g ! j) @ (g ! j ! i) # drop (Suc i) (g ! j)"
    using assms(2) by (simp add: id_take_nth_drop)
  have "cells g = concat (map ?f (enumerate 0 (take j g @ (g ! j) # drop (Suc j) g)))"
    using g by (simp add: cells_def)
  also have "\<dots> = cells (take j g) @ cells_row (g ! j) (int j) @
      concat (map ?f (enumerate (Suc j) (drop (Suc j) g)))"
    using assms(1) by (simp add: enumerate_append_eq cells_def)
  finally have 1: "cells g = cells (take j g) @ cells_row (g ! j) (int j) @
      concat (map ?f (enumerate (Suc j) (drop (Suc j) g)))" .
  have "cells_row (g ! j) (int j) =
      cells_row (take i (g ! j) @ (g ! j ! i) # drop (Suc i) (g ! j)) (int j)"
    using row by simp
  also have "\<dots> = cells_row (take i (g ! j)) (int j) @ (int i, int j, g ! j ! i) #
      map (\<lambda>(i, ch). (int i, int j, ch)) (enumerate (Suc i) (drop (Suc i) (g ! j)))"
    using assms(2) by (simp add: cells_row_def enumerate_append_eq)
  finally show ?thesis using 1 by simp
qed

lemma chars_of_cells_row: "map (\<lambda>c. snd (snd c)) (cells_row row j) = row"
  by (simp add: cells_row_def comp_def split_def flip: map_map [unfolded comp_def])

lemma count_solid_chars:
  "length (filter (\<lambda>c. is_solid_char (snd (snd c))) cs) =
   length (filter is_solid_char (map (\<lambda>c. snd (snd c)) cs))"
  by (simp add: filter_map comp_def)

lemma count_list_take_0: "count_list xs y = 0 \<Longrightarrow> count_list (take n xs) y = 0"
  by (simp add: count_list_0_iff) (meson in_set_takeD)

text \<open>
  The store is filled in scan order and closed after \<open>MAX_SOLIDS\<close> entries, so an \<open>X\<close> or
  \<open>=\<close> is in it once when fewer than \<open>MAX_SOLIDS\<close> solid characters come before it, and not
  at all otherwise.
\<close>

lemma solids_build_level_count:
  assumes b: "build_level map_lines rows lv0 = Some lv"
    and j: "int j < rows" and i: "i < length (map_lines ! j)"
    and ch: "map_lines ! j ! i = CHR ''X'' \<or> map_lines ! j ! i = CHR ''=''"
  shows "count_list (solids lv) \<lparr>rx = int i * TILE, ry = int j * TILE, rw = TILE, rh = TILE\<rparr> =
     (if solids_before map_lines i j < MAX_SOLIDS then 1 else 0)"
proof -
  let ?g = "take (nat rows) map_lines"
  let ?P = "\<lambda>c. is_solid_char (snd (snd c))"
  let ?r = "\<lparr>rx = int i * TILE, ry = int j * TILE, rw = TILE, rh = TILE\<rparr>"
  let ?c = "(int i, int j, map_lines ! j ! i)"
  from b have len: "rows \<le> int (length map_lines)" by (simp add: build_level_Some)
  with j have jg: "j < length ?g" "?g ! j = map_lines ! j" "take j ?g = take j map_lines"
    by (auto simp: min_def)
  from cells_split [OF jg(1)] i jg obtain rest where
    split: "cells ?g =
      (cells (take j map_lines) @ cells_row (take i (map_lines ! j)) (int j)) @ ?c # rest"
    by auto
  define A where "A = map solid_rect
    (filter ?P (cells (take j map_lines) @ cells_row (take i (map_lines ! j)) (int j)))"
  define B where "B = map solid_rect (filter ?P rest)"
  have c: "?P ?c" "solid_rect ?c = ?r" using ch by (auto simp: is_solid_char_def solid_rect_def)
  have all: "map solid_rect (filter ?P (cells ?g)) = A @ ?r # B"
    unfolding split A_def B_def using c by simp
  have lenA: "length A = solids_before map_lines i j"
    by (simp add: A_def solids_before_def count_solid_chars chars_of_cells chars_of_cells_row)
  have "count_list (A @ ?r # B) ?r =
      length (filter (\<lambda>c. is_solid_char (snd (snd c)) \<and> solid_rect c = ?r) (cells ?g))"
    unfolding all [symmetric] by (simp add: count_list_map_filter conj_commute)
  also have "\<dots> = length (filter (\<lambda>c. fst c = int i \<and> fst (snd c) = int j \<and>
        (snd (snd c) = CHR ''X'' \<or> snd (snd c) = CHR ''='')) (cells ?g))"
    by (simp only: full_solid_rect_iff)
  also have "\<dots> = 1"
    using one_cell_in_grid [of i j "\<lambda>ch. ch = CHR ''X'' \<or> ch = CHR ''=''" ?g] i ch jg by simp
  finally have "count_list A ?r + count_list B ?r = 0" by simp
  then have 0: "count_list A ?r = 0" "count_list B ?r = 0" by simp_all
  have s: "solids lv = take MAX_SOLIDS (A @ ?r # B)"
    using solids_build_level [OF b] all by simp
  show ?thesis
  proof (cases "solids_before map_lines i j < MAX_SOLIDS")
    case True
    then obtain k where k: "MAX_SOLIDS - length A = Suc k"
      using lenA by (cases "MAX_SOLIDS - length A") auto
    have "solids lv = A @ ?r # take k B" using True lenA k by (simp add: s)
    then show ?thesis using True 0 count_list_take_0 [OF 0(2), of k] by simp
  next
    case False
    then have "solids lv = take MAX_SOLIDS A" using lenA by (simp add: s)
    then show ?thesis using False count_list_take_0 [OF 0(1), of MAX_SOLIDS] by simp
  qed
qed

text \<open>
  C7, amended. Every character outside the legend \<open>X = t C E M F\<close>, the space among them,
  leaves the store as it is. Every \<open>X\<close> and every \<open>=\<close> at column \<open>i\<close> of row \<open>j\<close> that
  fewer than \<open>MAX_SOLIDS\<close> solid characters (\<open>X\<close>, \<open>=\<close> and \<open>t\<close>) precede in scan order is
  in the store exactly once, as the full tile at \<open>(i * TILE, j * TILE)\<close>; one that
  \<open>MAX_SOLIDS\<close> or more solid characters precede is not in the store.
\<close>

theorem build_level_tiles:
  assumes "build_level map_lines rows lv0 = Some lv"
  shows "(\<forall>i j. int j < rows \<and> i < length (map_lines ! j) \<and>
            (map_lines ! j ! i = CHR ''X'' \<or> map_lines ! j ! i = CHR ''='') \<longrightarrow>
            count_list (solids lv)
              \<lparr>rx = int i * TILE, ry = int j * TILE, rw = TILE, rh = TILE\<rparr> =
              (if solids_before map_lines i j < MAX_SOLIDS then 1 else 0)) \<and>
         (\<forall>i j ch l. ch \<notin> set ''X=tCEMF'' \<longrightarrow> place_tile i j ch l = l)"
proof (intro conjI allI impI)
  fix i j
  assume "int j < rows \<and> i < length (map_lines ! j) \<and>
            (map_lines ! j ! i = CHR ''X'' \<or> map_lines ! j ! i = CHR ''='')"
  then show "count_list (solids lv)
      \<lparr>rx = int i * TILE, ry = int j * TILE, rw = TILE, rh = TILE\<rparr> =
      (if solids_before map_lines i j < MAX_SOLIDS then 1 else 0)"
    using solids_build_level_count [OF assms] by blast
next
  fix i j ch l
  assume "ch \<notin> set ''X=tCEMF''"
  then show "place_tile i j ch l = l"
    by (simp add: place_tile_def Let_def)
qed

text \<open>A grid of two rows with an \<open>=\<close> at column 0 of row 1, after the two solid
  characters of row 0, and a character outside the legend.\<close>

theorem build_level_tiles_witness:
  "build_level [''X t'', ''=Q''] 2 initial_store \<noteq> None \<and>
   solids_before [''X t'', ''=Q''] 0 1 = 2 \<and>
   count_list (solids (the (build_level [''X t'', ''=Q''] 2 initial_store)))
     \<lparr>rx = 0 * TILE, ry = 1 * TILE, rw = TILE, rh = TILE\<rparr> = 1 \<and>
   place_tile 1 1 (CHR ''Q'') initial_store = initial_store"
proof -
  obtain lv where lv: "build_level [''X t'', ''=Q''] 2 initial_store = Some lv"
    by (simp add: build_level_def)
  have few: "solids_before [''X t'', ''=Q''] 0 1 = 2"
    by (simp add: solids_before_def is_solid_char_def)
  note t = build_level_tiles [OF lv]
  from t have a: "int 1 < 2 \<and> 0 < length ([''X t'', ''=Q''] ! 1) \<and>
            ([''X t'', ''=Q''] ! 1 ! 0 = CHR ''X'' \<or> [''X t'', ''=Q''] ! 1 ! 0 = CHR ''='') \<longrightarrow>
            count_list (solids lv) \<lparr>rx = int 0 * TILE, ry = int 1 * TILE, rw = TILE, rh = TILE\<rparr> =
              (if solids_before [''X t'', ''=Q''] 0 1 < MAX_SOLIDS then 1 else 0)"
    by blast
  from t have b: "CHR ''Q'' \<notin> set ''X=tCEMF'' \<longrightarrow> place_tile 1 1 (CHR ''Q'') initial_store = initial_store"
    by blast
  from a b lv few show ?thesis by (simp add: MAX_SOLIDS_def)
qed

text \<open>
  The claim as it stands fails where the store is full: a row of 1025 \<open>X\<close> is a grid, its
  last character is an \<open>X\<close>, at column 1024, and the store holds no rectangle for it.
\<close>

theorem build_level_solid_beyond_capacity:
  "build_level [replicate 1025 (CHR ''X'')] 1 initial_store \<noteq> None \<and>
   replicate 1025 (CHR ''X'') ! 1024 = CHR ''X'' \<and>
   count_list (solids (the (build_level [replicate 1025 (CHR ''X'')] 1 initial_store)))
     \<lparr>rx = 1024 * TILE, ry = 0 * TILE, rw = TILE, rh = TILE\<rparr> = 0"
proof -
  obtain lv where lv: "build_level [replicate 1025 (CHR ''X'')] 1 initial_store = Some lv"
    by (simp add: build_level_def)
  have "solids lv = take MAX_SOLIDS (map (\<lambda>i. \<lparr>rx = int i * TILE, ry = 0, rw = TILE, rh = TILE\<rparr>) [0..<1025])"
    using solids_build_level [OF lv]
    by (simp add: cells_one_row_of_X is_solid_char_def solid_rect_def comp_def)
  then have "solids lv = map (\<lambda>i. \<lparr>rx = int i * TILE, ry = 0, rw = TILE, rh = TILE\<rparr>) [0..<1024]"
    by (simp add: MAX_SOLIDS_def take_map)
  then have "\<lparr>rx = 1024 * TILE, ry = 0 * TILE, rw = TILE, rh = TILE\<rparr> \<notin> set (solids lv)"
    by (auto simp: TILE_def)
  then show ?thesis using lv by (simp add: count_list_0_iff)
qed

text \<open>
  C8. The level built from any grid holds at most \<open>MAX_SOLIDS\<close> solids, \<open>MAX_COINS\<close>
  coins, \<open>MAX_ENEMIES\<close> enemies and \<open>MAX_MUSH\<close> mushrooms. A legend character met while
  its store is full leaves the whole store unchanged, so the count stays at the capacity
  and no entry is overwritten; and the build fails for no grid whose rows exist.
\<close>

theorem build_level_capacity:
  "(build_level map_lines rows lv0 = Some lv \<longrightarrow>
      length (solids lv) \<le> MAX_SOLIDS \<and> length (coins lv) \<le> MAX_COINS \<and>
      length (enemies lv) \<le> MAX_ENEMIES \<and> length (mush lv) \<le> MAX_MUSH) \<and>
   (length (solids l) = MAX_SOLIDS \<and> is_solid_char ch \<longrightarrow> place_tile i j ch l = l) \<and>
   (length (coins l) = MAX_COINS \<longrightarrow> place_tile i j (CHR ''C'') l = l) \<and>
   (length (enemies l) = MAX_ENEMIES \<longrightarrow> place_tile i j (CHR ''E'') l = l) \<and>
   (length (mush l) = MAX_MUSH \<longrightarrow> place_tile i j (CHR ''M'') l = l) \<and>
   (map_lines \<noteq> [] \<and> rows \<le> int (length map_lines) \<longrightarrow> build_level map_lines rows lv0 \<noteq> None)"
proof (intro conjI impI)
  assume b: "build_level map_lines rows lv0 = Some lv"
  define l0 where "l0 = lv0\<lparr>solids := [], coins := [], enemies := [], mush := [], goal_exists := 0,
             world_width := int (length (hd map_lines)) * TILE\<rparr>"
  have "length (solids l0) \<le> MAX_SOLIDS \<and> length (coins l0) \<le> MAX_COINS \<and>
        length (enemies l0) \<le> MAX_ENEMIES \<and> length (mush l0) \<le> MAX_MUSH"
    by (simp add: l0_def)
  note caps = within_caps_fold [OF this, of "cells (take (nat rows) map_lines)"]
  from b have "lv = fold place_cell (cells (take (nat rows) map_lines)) l0"
    by (simp only: build_level_Some l0_def)
  with caps
  show "length (solids lv) \<le> MAX_SOLIDS" "length (coins lv) \<le> MAX_COINS"
    "length (enemies lv) \<le> MAX_ENEMIES" "length (mush lv) \<le> MAX_MUSH"
    by blast+
next
  assume a: "length (solids l) = MAX_SOLIDS \<and> is_solid_char ch"
  then consider "ch = CHR ''X''" | "ch = CHR ''=''" | "ch = CHR ''t''"
    by (auto simp: is_solid_char_def)
  then show "place_tile i j ch l = l"
  proof cases
    case 1
    with a show ?thesis by (simp add: place_tile_def Let_def)
  next
    case 2
    with a show ?thesis by (simp add: place_tile_def Let_def)
  next
    case 3
    with a show ?thesis by (simp add: place_tile_def Let_def)
  qed
next
  assume "length (coins l) = MAX_COINS"
  then show "place_tile i j (CHR ''C'') l = l"
    by (simp add: place_tile_def Let_def)
next
  assume "length (enemies l) = MAX_ENEMIES"
  then show "place_tile i j (CHR ''E'') l = l"
    by (simp add: place_tile_def Let_def)
next
  assume "length (mush l) = MAX_MUSH"
  then show "place_tile i j (CHR ''M'') l = l"
    by (simp add: place_tile_def Let_def)
next
  assume "map_lines \<noteq> [] \<and> rows \<le> int (length map_lines)"
  then show "build_level map_lines rows lv0 \<noteq> None"
    by (simp add: build_level_def)
qed

text \<open>A one-row grid, and the four kinds of tile offered to a store that is full.\<close>

theorem build_level_capacity_witness:
  "build_level [''XCEM''] 1 initial_store \<noteq> None \<and>
   length (solids (the (build_level [''XCEM''] 1 initial_store))) \<le> MAX_SOLIDS \<and>
   length (coins (the (build_level [''XCEM''] 1 initial_store))) \<le> MAX_COINS \<and>
   length (enemies (the (build_level [''XCEM''] 1 initial_store))) \<le> MAX_ENEMIES \<and>
   length (mush (the (build_level [''XCEM''] 1 initial_store))) \<le> MAX_MUSH \<and>
   place_tile 5 0 (CHR ''t'') full_store = full_store \<and>
   place_tile 5 0 (CHR ''C'') full_store = full_store \<and>
   place_tile 5 0 (CHR ''E'') full_store = full_store \<and>
   place_tile 5 0 (CHR ''M'') full_store = full_store"
proof -
  obtain lv where lv: "build_level [''XCEM''] 1 initial_store = Some lv"
    by (simp add: build_level_def)
  have full: "length (solids full_store) = MAX_SOLIDS" "length (coins full_store) = MAX_COINS"
    "length (enemies full_store) = MAX_ENEMIES" "length (mush full_store) = MAX_MUSH"
    by (simp_all add: full_store_def)
  have t: "is_solid_char (CHR ''t'')" by (simp add: is_solid_char_def)
  have ne: "[''XCEM''] \<noteq> [] \<and> 1 \<le> int (length [''XCEM''])" by simp
  from build_level_capacity [of "[''XCEM'']" 1 initial_store lv full_store "CHR ''t''" 5 0]
    lv full t ne
  show ?thesis by simp
qed

text \<open>
  C10. \<open>goal_exists\<close> is 1 after the build if an \<open>F\<close> occurs in the scanned rows and 0
  otherwise. With several \<open>F\<close> the goal is the rectangle of the last one in scan order;
  with none \<open>goal_rect\<close> keeps its old value. Every \<open>F\<close> sets the goal, whatever the store
  holds: there is no capacity check.
\<close>

theorem build_level_goal:
  "(build_level map_lines rows lv0 = Some lv \<longrightarrow>
      goal_exists lv = (if CHR ''F'' \<in> set (concat (take (nat rows) map_lines)) then 1 else 0) \<and>
      goal_rect lv =
        (if CHR ''F'' \<in> set (concat (take (nat rows) map_lines))
         then flag_rect (last (filter is_flag (cells (take (nat rows) map_lines))))
         else goal_rect lv0)) \<and>
   place_tile i j (CHR ''F'') l =
     l\<lparr>goal_rect := \<lparr>rx = i * TILE + TILE div 2 - 6, ry = j * TILE - 4 * TILE,
                     rw = 12, rh = 4 * TILE\<rparr>,
       goal_exists := 1\<rparr>"
proof (intro conjI impI)
  assume b: "build_level map_lines rows lv0 = Some lv"
  let ?g = "take (nat rows) map_lines"
  from b show "goal_exists lv = (if CHR ''F'' \<in> set (concat ?g) then 1 else 0)"
    by (simp add: build_level_Some goal_fold_place flag_in_cells)
  from b show "goal_rect lv =
        (if CHR ''F'' \<in> set (concat ?g)
         then flag_rect (last (filter is_flag (cells ?g))) else goal_rect lv0)"
    by (simp add: build_level_Some goal_fold_place flag_in_cells)
next
  show "place_tile i j (CHR ''F'') l =
     l\<lparr>goal_rect := \<lparr>rx = i * TILE + TILE div 2 - 6, ry = j * TILE - 4 * TILE,
                     rw = 12, rh = 4 * TILE\<rparr>,
       goal_exists := 1\<rparr>"
    by (simp add: place_tile_def Let_def)
qed

text \<open>A grid with two \<open>F\<close>, the last one at column 2 of row 1, and a grid with none.\<close>

theorem build_level_goal_witness:
  "build_level [''F X'', ''  F''] 2 initial_store \<noteq> None \<and>
   goal_exists (the (build_level [''F X'', ''  F''] 2 initial_store)) = 1 \<and>
   goal_rect (the (build_level [''F X'', ''  F''] 2 initial_store)) =
     \<lparr>rx = 2 * 48 + 18, ry = 48 - 192, rw = 12, rh = 192\<rparr> \<and>
   build_level [''  X''] 1 initial_store \<noteq> None \<and>
   goal_exists (the (build_level [''  X''] 1 initial_store)) = 0 \<and>
   goal_rect (the (build_level [''  X''] 1 initial_store)) = goal_rect initial_store"
proof -
  obtain lv where lv: "build_level [''F X'', ''  F''] 2 initial_store = Some lv"
    by (simp add: build_level_def)
  obtain lv' where lv': "build_level [''  X''] 1 initial_store = Some lv'"
    by (simp add: build_level_def)
  have c: "filter is_flag (cells (take (nat 2) [''F X'', ''  F''])) = [(0, 0, CHR ''F''), (2, 1, CHR ''F'')]"
    by (simp add: cells_def cells_row_def is_flag_def enumerate_eq_zip upt_rec)
  from build_level_goal [of "[''F X'', ''  F'']" 2 initial_store lv 0 0 initial_store]
    build_level_goal [of "[''  X'']" 1 initial_store lv' 0 0 initial_store] lv lv' c
  show ?thesis by (simp add: flag_rect_def TILE_def)
qed

section \<open>Single-precision values\<close>

text \<open>
  \<open>flog2\<close> is the binary exponent of its argument. Every integer multiple \<open>m * 2^k\<close> with
  \<open>\<bar>m\<bar> \<le> 2^24\<close> and \<open>k \<ge> -149\<close> is a binary32 value, the integers up to \<open>2^24\<close> among them,
  and rounding gives binary32 values only: the result of every \<open>float\<close> operation of the
  model is a value that \<open>f32\<close> leaves alone.
\<close>

lemma bitlen_powi:
  assumes "0 < a"
  shows "2 powi (bitlen a - 1) \<le> (of_int a :: rat)" and "(of_int a :: rat) < 2 powi (bitlen a)"
proof -
  from bitlen_bounds [OF assms]
  have lo: "2 ^ nat (bitlen a - 1) \<le> a" and hi: "a < 2 ^ nat (bitlen a)" by auto
  have ge1: "1 \<le> bitlen a" using assms by (auto simp: bitlen_alt_def)
  have "(2::rat) powi (bitlen a - 1) = of_int (2 ^ nat (bitlen a - 1))"
    using ge1 by (simp add: power_int_nonneg_exp)
  also have "\<dots> \<le> of_int a" using lo by (simp only: of_int_le_iff)
  finally show "2 powi (bitlen a - 1) \<le> (of_int a :: rat)" .
  have "(of_int a :: rat) < of_int (2 ^ nat (bitlen a))" using hi by (simp only: of_int_less_iff)
  also have "\<dots> = 2 powi (bitlen a)" using ge1 by (simp add: power_int_nonneg_exp)
  finally show "(of_int a :: rat) < 2 powi (bitlen a)" .
qed

lemma flog2_bounds:
  assumes "x \<noteq> 0"
  shows "2 powi (flog2 x) \<le> \<bar>x\<bar> \<and> \<bar>x\<bar> < 2 powi (flog2 x + 1)"
proof -
  obtain a b where q: "quotient_of \<bar>x\<bar> = (a, b)" by force
  have b: "0 < b" using quotient_of_denom_pos [OF q] .
  have x: "\<bar>x\<bar> = of_int a / of_int b" using quotient_of_div [OF q] .
  have a: "0 < a"
  proof (rule ccontr)
    assume "\<not> 0 < a"
    then have "(of_int a :: rat) / of_int b \<le> 0" using b by (simp add: divide_le_0_iff)
    with x assms show False by simp
  qed
  define e0 where "e0 = bitlen a - bitlen b"
  have pb: "0 < (of_int b :: rat)" using b by simp
  have "(of_int a :: rat) < 2 powi (bitlen a)" using bitlen_powi(2) [OF a] .
  also have "\<dots> = 2 powi (e0 + 1) * 2 powi (bitlen b - 1)"
    by (simp add: e0_def flip: power_int_add)
  also have "\<dots> \<le> 2 powi (e0 + 1) * of_int b"
    using bitlen_powi(1) [OF b] by (intro mult_left_mono) auto
  finally have hi: "\<bar>x\<bar> < 2 powi (e0 + 1)" unfolding x using pb by (simp add: divide_less_eq)
  have "2 powi (e0 - 1) * (of_int b :: rat) \<le> 2 powi (e0 - 1) * 2 powi (bitlen b)"
    using bitlen_powi(2) [OF b] by (intro mult_left_mono) auto
  also have "\<dots> = 2 powi (bitlen a - 1)" by (simp add: e0_def flip: power_int_add)
  also have "\<dots> \<le> of_int a" using bitlen_powi(1) [OF a] .
  finally have lo: "2 powi (e0 - 1) \<le> \<bar>x\<bar>" unfolding x using pb by (simp add: le_divide_eq)
  show ?thesis
  proof (cases "2 powi e0 \<le> \<bar>x\<bar>")
    case True
    then have "flog2 x = e0" by (simp add: flog2_def q e0_def)
    with True hi show ?thesis by simp
  next
    case False
    then have "flog2 x = e0 - 1" by (simp add: flog2_def q e0_def)
    with False lo show ?thesis by simp
  qed
qed

lemma flog2_unique:
  assumes "2 powi e \<le> \<bar>x\<bar>" and "\<bar>x\<bar> < 2 powi (e + 1)"
  shows "flog2 x = e"
proof -
  have "(0::rat) < 2 powi e" by (simp add: zero_less_power_int)
  with assms(1) have "0 < \<bar>x\<bar>" by linarith
  then have "x \<noteq> 0" by simp
  from flog2_bounds [OF this]
  have lo: "2 powi (flog2 x) \<le> \<bar>x\<bar>" and hi: "\<bar>x\<bar> < 2 powi (flog2 x + 1)" by auto
  have "(2::rat) powi e < 2 powi (flog2 x + 1)" using assms(1) hi by simp
  then have 1: "e < flog2 x + 1"
    by (metis not_less power_int_increasing one_le_numeral)
  have "(2::rat) powi (flog2 x) < 2 powi (e + 1)" using lo assms(2) by simp
  then have 2: "flog2 x < e + 1"
    by (metis not_less power_int_increasing one_le_numeral)
  from 1 2 show ?thesis by simp
qed

lemma round_half_even_int: "round_half_even (of_int n) = n"
  by (simp add: round_half_even_def)


lemma flog2_less:
  assumes "x \<noteq> 0" and "\<bar>x\<bar> < 2 powi e"
  shows "flog2 x < e"
proof -
  from flog2_bounds [OF assms(1)] assms(2) have "(2::rat) powi (flog2 x) < 2 powi e" by simp
  then show ?thesis by (metis not_less power_int_increasing one_le_numeral)
qed

lemma is_f32_dyadic:
  assumes "\<bar>m\<bar> \<le> 2 ^ 24" and "- 149 \<le> k"
  shows "is_f32 (of_int m * 2 powi k)"
proof (cases "m = 0")
  case True
  then show ?thesis by (simp add: is_f32_def f32_def)
next
  case False
  define y :: rat where "y = of_int m * 2 powi k"
  have y0: "y \<noteq> 0" using False by (simp add: y_def)
  define E where "E = max (flog2 y) (- 126)"
  have ay: "\<bar>y\<bar> = of_int \<bar>m\<bar> * 2 powi k" by (simp add: y_def abs_mult power_int_abs)
  have "\<exists>n. y = of_int n * 2 powi (E - 23)"
  proof (cases "\<bar>m\<bar> = 2 ^ 24")
    case True
    then have eq: "\<bar>y\<bar> = 2 powi (k + 24)" using ay by (simp add: power_int_add)
    have "flog2 y = k + 24"
      by (rule flog2_unique) (simp_all add: eq power_int_strict_increasing)
    then have E: "E = k + 24" using assms(2) by (simp add: E_def)
    have "m = 2 ^ 24 \<or> m = - (2 ^ 24)" using True by (auto simp: abs_if split: if_splits)
    then have "y = of_int (m div 2) * 2 powi (E - 23)"
      by (auto simp: y_def E power_int_add)
    then show ?thesis by blast
  next
    case False
    then have lt: "\<bar>m\<bar> < 2 ^ 24" using assms(1) by simp
    have "(of_int \<bar>m\<bar> :: rat) < of_int (2 ^ 24)" using lt by (simp only: of_int_less_iff)
    then have "\<bar>y\<bar> < 2 ^ 24 * 2 powi k" unfolding ay
      by (intro mult_strict_right_mono) (simp_all add: zero_less_power_int)
    then have "\<bar>y\<bar> < 2 powi (k + 24)" by (simp add: power_int_add)
    from flog2_less [OF y0 this] have "E \<le> k + 23" using assms(2) by (simp add: E_def)
    define d where "d = nat (k + 23 - E)"
    have "(2::rat) powi k = 2 powi (int d) * 2 powi (E - 23)"
      using \<open>E \<le> k + 23\<close> by (simp add: d_def flip: power_int_add)
    then have "y = of_int (m * 2 ^ d) * 2 powi (E - 23)" by (simp add: y_def)
    then show ?thesis by blast
  qed
  then obtain n where n: "y = of_int n * 2 powi (E - 23)" ..
  have d: "y / 2 powi (E - 23) = of_int n" using n by simp
  have "f32 y = of_int (round_half_even (y / 2 powi (E - 23))) * 2 powi (E - 23)"
    using y0 by (simp add: f32_def Let_def E_def)
  also have "\<dots> = y" by (simp only: d round_half_even_int n [symmetric])
  finally show ?thesis by (simp add: is_f32_def y_def)
qed

lemma round_half_even_between: "\<lfloor>t\<rfloor> \<le> round_half_even t \<and> round_half_even t \<le> \<lceil>t\<rceil>"
proof -
  have "t - of_int \<lfloor>t\<rfloor> \<noteq> 0 \<Longrightarrow> \<lfloor>t\<rfloor> + 1 \<le> \<lceil>t\<rceil>" by linarith
  then show ?thesis by (auto simp: round_half_even_def Let_def)
qed

lemma round_half_even_abs:
  assumes "\<bar>t\<bar> \<le> of_int N"
  shows "\<bar>round_half_even t\<bar> \<le> N"
proof -
  have "- of_int N \<le> t" and "t \<le> of_int N" using assms by auto
  then have "- N \<le> \<lfloor>t\<rfloor>" and "\<lceil>t\<rceil> \<le> N" by (simp_all add: le_floor_iff ceiling_le_iff)
  with round_half_even_between [of t] show ?thesis by auto
qed

lemma f32_is_f32: "is_f32 (f32 x)"
proof (cases "x = 0")
  case True
  then show ?thesis by (simp add: is_f32_def f32_def)
next
  case False
  define E where "E = max (flog2 x) (- 126)"
  define q :: rat where "q = 2 powi (E - 23)"
  have q: "0 < q" by (simp add: q_def zero_less_power_int)
  have "\<bar>x\<bar> < 2 powi (flog2 x + 1)" using flog2_bounds [OF False] by simp
  also have "\<dots> \<le> 2 powi (E + 1)" by (intro power_int_increasing) (simp_all add: E_def)
  also have "\<dots> = 2 ^ 24 * q" by (simp add: q_def power_int_add power_int_diff)
  finally have le: "\<bar>x\<bar> / q \<le> 2 ^ 24" using q by (simp add: divide_le_eq)
  have "\<bar>q\<bar> = q" using q by simp
  then have eq: "\<bar>x / q\<bar> = \<bar>x\<bar> / q" by (simp only: abs_divide)
  have "\<bar>x / q\<bar> \<le> of_int (2 ^ 24)" unfolding eq using le by simp
  from round_half_even_abs [OF this] have "\<bar>round_half_even (x / q)\<bar> \<le> 2 ^ 24" .
  moreover have "- 149 \<le> E - 23" by (simp add: E_def)
  ultimately have "is_f32 (of_int (round_half_even (x / q)) * 2 powi (E - 23))"
    by (rule is_f32_dyadic)
  then show ?thesis using False by (simp add: f32_def Let_def E_def q_def)
qed

lemma is_f32_int: "\<bar>n\<bar> \<le> 2 ^ 24 \<Longrightarrow> is_f32 (of_int n)"
  using is_f32_dyadic [of n 0] by simp

lemma is_f32_grid:
  assumes "is_f32 x" and "x \<noteq> 0"
  shows "\<exists>n. x = of_int n * 2 powi (max (flog2 x) (- 126) - 23)"
proof -
  from assms have "x = of_int (round_half_even (x / 2 powi (max (flog2 x) (- 126) - 23))) *
      2 powi (max (flog2 x) (- 126) - 23)"
    by (simp add: is_f32_def f32_def Let_def)
  then show ?thesis by blast
qed

text \<open>Rounding to the nearest integer, on integers and on the positive side.\<close>

lemma int_of_roundf_int: "int_of_float (roundf (of_int n)) = n"
proof -
  have half: "\<lfloor>1 / 2 :: rat\<rfloor> = 0"
    by (rule floor_unique) simp_all
  show ?thesis by (simp add: int_of_float_def roundf_def half)
qed

lemma roundf_pos_bounds:
  assumes "1 \<le> int_of_float (roundf y)"
  shows "of_int (int_of_float (roundf y)) \<le> y + 1 / 2"
    and "y + 1 / 2 < of_int (int_of_float (roundf y)) + 1"
proof -
  have pos: "0 \<le> y"
  proof (rule ccontr)
    assume "\<not> 0 \<le> y"
    then have "0 \<le> \<lfloor>- y + 1 / 2\<rfloor>" by simp
    with \<open>\<not> 0 \<le> y\<close> have "int_of_float (roundf y) \<le> 0"
      by (simp add: roundf_def int_of_float_def)
    with assms show False by simp
  qed
  then have "0 \<le> \<lfloor>y + 1 / 2\<rfloor>" by simp
  with pos have eq: "int_of_float (roundf y) = \<lfloor>y + 1 / 2\<rfloor>"
    by (simp add: roundf_def int_of_float_def)
  show "of_int (int_of_float (roundf y)) \<le> y + 1 / 2" unfolding eq by (rule of_int_floor_le)
  show "y + 1 / 2 < of_int (int_of_float (roundf y)) + 1" unfolding eq by linarith
qed

text \<open>What the operations give is a binary32 value, and integers up to \<open>2^24\<close> convert
  exactly.\<close>

lemma is_f32_ops:
  "is_f32 (fadd a b)" "is_f32 (fsub a b)" "is_f32 (fmul a b)" "is_f32 (fdiv a b)"
  "is_f32 (float_of_int n)"
  by (simp_all add: fadd_def fsub_def fmul_def fdiv_def float_of_int_def f32_is_f32)


text \<open>Between 64 and 256 a binary32 value is a multiple of \<open>2^-17\<close>, and of \<open>2^-16\<close> from
  128 on, so that taking 24 away gives a binary32 value again.\<close>

lemma is_f32_minus_24:
  assumes "is_f32 y" and "64 \<le> y" and "y < 256"
  shows "is_f32 (y - 24)"
proof (cases "y < 128")
  case True
  then have "flog2 y = 6" using assms(2) by (intro flog2_unique) simp_all
  with is_f32_grid [OF assms(1)] assms(2) obtain n where n: "y = of_int n * 2 powi (- 17)"
    by auto
  then have y: "y = of_int n / 2 ^ 17" by (simp add: power_int_minus_divide)
  have "of_int n < (2 ^ 24 :: rat)" "(0 :: rat) \<le> of_int n" using True assms(2) by (simp_all add: y)
  then have "n < 2 ^ 24" "0 \<le> n" by (simp_all only: of_int_less_iff [symmetric, where 'a = rat] of_int_le_iff [symmetric, where 'a = rat]) simp_all
  then have "\<bar>n - 24 * 2 ^ 17\<bar> \<le> 2 ^ 24" by simp
  from is_f32_dyadic [OF this, of "- 17"] show ?thesis
    by (simp add: y power_int_minus_divide diff_divide_distrib)
next
  case False
  then have "flog2 y = 7" using assms(3) by (intro flog2_unique) simp_all
  with is_f32_grid [OF assms(1)] assms(2) obtain n where n: "y = of_int n * 2 powi (- 16)"
    by auto
  then have y: "y = of_int n / 2 ^ 16" by (simp add: power_int_minus_divide)
  have "of_int n < (2 ^ 24 :: rat)" "(0 :: rat) \<le> of_int n" using False assms(3) by (simp_all add: y)
  then have "n < 2 ^ 24" "0 \<le> n" by (simp_all only: of_int_less_iff [symmetric, where 'a = rat] of_int_le_iff [symmetric, where 'a = rat]) simp_all
  then have "\<bar>n - 24 * 2 ^ 16\<bar> \<le> 2 ^ 24" by simp
  from is_f32_dyadic [OF this, of "- 16"] show ?thesis
    by (simp add: y power_int_minus_divide diff_divide_distrib)
qed

text \<open>The sizes of the player's rectangle and half a tile, as \<open>float\<close>s.\<close>

lemma game_heights:
  "float_of_int (TILE - 8) = 40" "float_of_int (TILE - 8 - TILE div 2) = 16"
  "float_of_int (TILE - 8 + TILE div 2) = 64" "float_of_int (TILE - 12) = 36"
  "f32 16 = 16" "f32 40 = 40" "f32 64 = 64"
  by code_simp+

lemma float_of_half_tile: "float_of_int (TILE div 2) = 24"
  by code_simp


text \<open>
  The rounding function at values whose binary32 neighbours are known: \<open>0.1f\<close> is
  \<open>13421773 / 2^27\<close> and \<open>0.6f\<close> is \<open>5033165 / 2^23\<close>; \<open>2^24 + 1\<close> lies halfway between two
  values and goes to the even one, as \<open>2^24 + 3\<close> does; half of the least subnormal number
  goes to zero, and one and a half of it to twice the least.
\<close>

lemma f32_known_values:
  "f32 (1 / 10) = 13421773 / 2 ^ 27"
  "f32 (6 / 10) = 5033165 / 2 ^ 23"
  "f32 (- (1 / 10)) = - (13421773 / 2 ^ 27)"
  "f32 (2 ^ 24 + 1) = 2 ^ 24"
  "f32 (2 ^ 24 + 3) = 2 ^ 24 + 4"
  "f32 (1 / 2 ^ 150) = 0"
  "f32 (3 / 2 ^ 150) = 2 / 2 ^ 149"
  "f32 (1 / 3) = 11184811 / 2 ^ 25"
  by code_simp+

lemma roundf_known_values:
  "roundf (5 / 2) = 3" "roundf (- (5 / 2)) = - 3" "roundf (12 / 5) = 2" "roundf (- (6 / 5)) = - 1"
  "int_of_float (- (7 / 2)) = - 3" "int_of_float (7 / 2) = 3"
  by code_simp+

section \<open>Starting a level\<close>

lemma start_level_built:
  assumes "0 \<le> idx" and "idx < int (length LEVELS)"
    and "build_level (LEVELS ! nat idx) 8 (store g) = Some lv"
    and "drop_loop 2000 (solids lv) 0
           \<lparr>fx = float_of_int 60, fy = float_of_int 0,
            fw = float_of_int (TILE - 12), fh = float_of_int (TILE - 8)\<rparr> = temp"
  shows "start_level idx now g =
    Some (g\<lparr>store := lv,
            player := (player g)\<lparr>r := temp, vx := 0, vy := 0, spawn := \<lparr>px = fx temp, py = fy temp\<rparr>\<rparr>,
            level_time := 300, t0 := now\<rparr>)"
  using assms by (simp add: start_level_def Let_def)

lemma levels_nth:
  "LEVELS ! nat 0 = LEVEL_0" "LEVELS ! nat 1 = LEVEL_1" "LEVELS ! nat 2 = LEVEL_2"
  "int (length LEVELS) = 3"
  by (simp_all add: LEVELS_def)

lemma levels_rows:
  "LEVEL_0 \<noteq> [] \<and> 8 \<le> int (length LEVEL_0)"
  "LEVEL_1 \<noteq> [] \<and> 8 \<le> int (length LEVEL_1)"
  "LEVEL_2 \<noteq> [] \<and> 8 \<le> int (length LEVEL_2)"
  by code_simp+

lemma spawn_rect: "float_of_int 60 = 60" "float_of_int 0 = 0"
  "float_of_int (TILE - 12) = 36" "float_of_int (TILE - 8) = 40"
  by code_simp+

text \<open>Starting a level of the table succeeds and keeps the state, the level index and
  the counters.\<close>

lemma start_level_keeps:
  assumes "0 \<le> idx" and "idx < NUM_LEVELS"
  shows "\<exists>g'. start_level idx now g = Some g' \<and> state g' = state g \<and> level_idx g' = level_idx g \<and>
           p_coins (player g') = p_coins (player g) \<and> score (player g') = score (player g)"
proof -
  from assms have "idx = 0 \<or> idx = 1 \<or> idx = 2"
    unfolding NUM_LEVELS_def by arith
  then have "LEVELS ! nat idx \<noteq> [] \<and> 8 \<le> int (length (LEVELS ! nat idx))"
    using levels_rows by (auto simp: LEVELS_def)
  then obtain lv where "build_level (LEVELS ! nat idx) 8 (store g) = Some lv"
    by (simp add: build_level_def)
  with assms show ?thesis
    by (simp add: start_level_def Let_def levels_nth NUM_LEVELS_def)
qed

text \<open>The only mushroom of the three levels is the one at column 8 of row 3 of the third.\<close>

lemma built_mush_levels:
  "built_mush LEVEL_0 = []" "built_mush LEVEL_1 = []"
  "built_mush LEVEL_2 = [\<lparr>m_r = \<lparr>rx = 396, ry = 156, rw = 24, rh = 24\<rparr>, m_active = 1\<rparr>]"
  by code_simp+

lemma start_level_mush:
  assumes "start_level idx now g = Some g'" and "m \<in> set (mush (store g'))"
  shows "m = \<lparr>m_r = \<lparr>rx = 396, ry = 156, rw = 24, rh = 24\<rparr>, m_active = 1\<rparr>"
proof -
  from assms(1) have idx: "0 \<le> idx" "idx < 3"
    by (auto simp: start_level_def levels_nth split: if_splits)
  from assms(1) obtain lv where lv: "build_level (LEVELS ! nat idx) 8 (store g) = Some lv"
      and g': "store g' = lv"
    by (auto simp: start_level_def Let_def split: if_splits option.splits)
  from idx have "idx = 0 \<or> idx = 1 \<or> idx = 2" by arith
  then have "set (built_mush (LEVELS ! nat idx)) \<subseteq>
      {\<lparr>m_r = \<lparr>rx = 396, ry = 156, rw = 24, rh = 24\<rparr>, m_active = 1\<rparr>}"
    using levels_nth by (auto simp: built_mush_levels)
  with assms(2) show ?thesis
    unfolding g' mush_build_level [OF lv] by auto
qed

lemma drop_level_0:
  "drop_loop 2000 (built_solids LEVEL_0) 0 \<lparr>fx = 60, fy = 0, fw = 36, fh = 40\<rparr>
     = \<lparr>fx = 60, fy = 248, fw = 36, fh = 40\<rparr>"
  by code_simp

lemma drop_level_1:
  "drop_loop 2000 (built_solids LEVEL_1) 0 \<lparr>fx = 60, fy = 0, fw = 36, fh = 40\<rparr>
     = \<lparr>fx = 60, fy = 296, fw = 36, fh = 40\<rparr>"
  by code_simp

lemma drop_level_2:
  "drop_loop 2000 (built_solids LEVEL_2) 0 \<lparr>fx = 60, fy = 0, fw = 36, fh = 40\<rparr>
     = \<lparr>fx = 60, fy = 200, fw = 36, fh = 40\<rparr>"
  by code_simp

lemma first_under_spawn:
  "find under_spawn (built_solids LEVEL_0) = Some \<lparr>rx = 48, ry = 288, rw = 48, rh = 48\<rparr>"
  "find under_spawn (built_solids LEVEL_1) = Some \<lparr>rx = 48, ry = 336, rw = 48, rh = 48\<rparr>"
  "find under_spawn (built_solids LEVEL_2) = Some \<lparr>rx = 48, ry = 240, rw = 48, rh = 48\<rparr>"
  by code_simp+

lemma start_level_on:
  assumes "0 \<le> idx" and "idx < int (length LEVELS)"
    and "LEVELS ! nat idx = L" and "L \<noteq> [] \<and> 8 \<le> int (length L)"
    and "drop_loop 2000 (built_solids L) 0 \<lparr>fx = 60, fy = 0, fw = 36, fh = 40\<rparr>
           = \<lparr>fx = 60, fy = y, fw = 36, fh = 40\<rparr>"
    and "find under_spawn (built_solids L) = Some s" and "y = of_int (ry s) - 40"
  shows "\<exists>g'. start_level idx now g = Some g' \<and>
           find under_spawn (solids (store g')) = Some s \<and>
           player g' = (player g)
             \<lparr>r := \<lparr>fx = 60, fy = of_int (ry s) - 40, fw = 36, fh = 40\<rparr>, vx := 0, vy := 0,
              spawn := \<lparr>px = 60, py = of_int (ry s) - 40\<rparr>\<rparr>"
proof -
  from assms(4) obtain lv where lv: "build_level L 8 (store g) = Some lv"
    by (simp add: build_level_def)
  have sol: "solids lv = built_solids L"
    using solids_build_level [OF lv] by (simp add: built_solids_def)
  have "start_level idx now g =
    Some (g\<lparr>store := lv,
            player := (player g)\<lparr>r := \<lparr>fx = 60, fy = y, fw = 36, fh = 40\<rparr>, vx := 0, vy := 0,
               spawn := \<lparr>px = fx \<lparr>fx = 60, fy = y, fw = 36, fh = 40\<rparr>,
                         py = fy \<lparr>fx = 60, fy = y, fw = 36, fh = 40\<rparr>\<rparr>\<rparr>,
            level_time := 300, t0 := now\<rparr>)"
    using assms(1,2) lv assms(5)
    by (intro start_level_built) (simp_all add: assms(3) sol spawn_rect)
  then show ?thesis
    using assms(6,7) by (simp add: sol)
qed

text \<open>Every solid of the three levels has its left edge between 0 and \<open>2^24\<close>.\<close>

lemma level_solids_in_range:
  "list_all (\<lambda>s. 0 \<le> rx s \<and> rx s \<le> 2 ^ 24) (built_solids LEVEL_0)"
  "list_all (\<lambda>s. 0 \<le> rx s \<and> rx s \<le> 2 ^ 24) (built_solids LEVEL_1)"
  "list_all (\<lambda>s. 0 \<le> rx s \<and> rx s \<le> 2 ^ 24) (built_solids LEVEL_2)"
  by code_simp+

lemma start_level_solids:
  assumes "start_level idx now g = Some g'" and "s \<in> set (solids (store g'))"
  shows "0 \<le> rx s \<and> rx s \<le> 2 ^ 24"
proof -
  from assms(1) have idx: "0 \<le> idx" "idx < 3"
    by (auto simp: start_level_def levels_nth split: if_splits)
  from assms(1) obtain lv where lv: "build_level (LEVELS ! nat idx) 8 (store g) = Some lv"
      and g': "store g' = lv"
    by (auto simp: start_level_def Let_def split: if_splits option.splits)
  have sol: "solids lv = built_solids (LEVELS ! nat idx)"
    using solids_build_level [OF lv] by (simp add: built_solids_def)
  from idx have "idx = 0 \<or> idx = 1 \<or> idx = 2" by arith
  then have "list_all (\<lambda>s. 0 \<le> rx s \<and> rx s \<le> 2 ^ 24) (built_solids (LEVELS ! nat idx))"
    using levels_nth level_solids_in_range by auto
  with assms(2) show ?thesis
    unfolding g' sol by (simp add: list_all_iff)
qed

text \<open>
  C9. For each of the three levels and every incoming game, \<open>start_level\<close> gives the
  player the rectangle of width \<open>TILE - 12\<close> and height \<open>TILE - 8\<close> at \<open>x = 60\<close>, standing on
  the first solid of the store that lies under the spawn columns, sets both velocities
  to zero and records the position as the spawn point. Every other field of the player
  is as before: \<open>big\<close>, \<open>big_timer\<close>, the coins, the score and the lives among them.
\<close>

theorem start_level_player:
  assumes "0 \<le> idx" and "idx < NUM_LEVELS"
  shows "\<exists>g' s. start_level idx now g = Some g' \<and>
           find under_spawn (solids (store g')) = Some s \<and>
           player g' = (player g)
             \<lparr>r := \<lparr>fx = 60, fy = of_int (ry s) - of_int (TILE - 8),
                    fw = of_int (TILE - 12), fh = of_int (TILE - 8)\<rparr>,
              vx := 0, vy := 0,
              spawn := \<lparr>px = 60, py = of_int (ry s) - of_int (TILE - 8)\<rparr>\<rparr> \<and>
           big (player g') = big (player g) \<and> big_timer (player g') = big_timer (player g) \<and>
           p_coins (player g') = p_coins (player g) \<and> score (player g') = score (player g) \<and>
           lives (player g') = lives (player g)"
proof -
  from assms have "idx = 0 \<or> idx = 1 \<or> idx = 2"
    unfolding NUM_LEVELS_def by arith
  then consider "idx = 0" | "idx = 1" | "idx = 2"
    by blast
  then have "\<exists>g' s. start_level idx now g = Some g' \<and>
           find under_spawn (solids (store g')) = Some s \<and>
           player g' = (player g)
             \<lparr>r := \<lparr>fx = 60, fy = of_int (ry s) - 40, fw = 36, fh = 40\<rparr>, vx := 0, vy := 0,
              spawn := \<lparr>px = 60, py = of_int (ry s) - 40\<rparr>\<rparr>"
  proof cases
    case 1
    have "\<exists>g'. start_level 0 now g = Some g' \<and>
           find under_spawn (solids (store g')) = Some \<lparr>rx = 48, ry = 288, rw = 48, rh = 48\<rparr> \<and>
           player g' = (player g)
             \<lparr>r := \<lparr>fx = 60, fy = of_int (ry \<lparr>rx = 48, ry = 288, rw = 48, rh = 48\<rparr>) - 40,
                    fw = 36, fh = 40\<rparr>, vx := 0, vy := 0,
              spawn := \<lparr>px = 60, py = of_int (ry \<lparr>rx = 48, ry = 288, rw = 48, rh = 48\<rparr>) - 40\<rparr>\<rparr>"
      by (rule start_level_on [where L = LEVEL_0 and y = 248,
            OF _ _ levels_nth(1) levels_rows(1) drop_level_0 first_under_spawn(1)])
         (simp_all add: levels_nth)
    then show ?thesis unfolding 1 by blast
  next
    case 2
    have "\<exists>g'. start_level 1 now g = Some g' \<and>
           find under_spawn (solids (store g')) = Some \<lparr>rx = 48, ry = 336, rw = 48, rh = 48\<rparr> \<and>
           player g' = (player g)
             \<lparr>r := \<lparr>fx = 60, fy = of_int (ry \<lparr>rx = 48, ry = 336, rw = 48, rh = 48\<rparr>) - 40,
                    fw = 36, fh = 40\<rparr>, vx := 0, vy := 0,
              spawn := \<lparr>px = 60, py = of_int (ry \<lparr>rx = 48, ry = 336, rw = 48, rh = 48\<rparr>) - 40\<rparr>\<rparr>"
      by (rule start_level_on [where L = LEVEL_1 and y = 296,
            OF _ _ levels_nth(2) levels_rows(2) drop_level_1 first_under_spawn(2)])
         (simp_all add: levels_nth)
    then show ?thesis unfolding 2 by blast
  next
    case 3
    have "\<exists>g'. start_level 2 now g = Some g' \<and>
           find under_spawn (solids (store g')) = Some \<lparr>rx = 48, ry = 240, rw = 48, rh = 48\<rparr> \<and>
           player g' = (player g)
             \<lparr>r := \<lparr>fx = 60, fy = of_int (ry \<lparr>rx = 48, ry = 240, rw = 48, rh = 48\<rparr>) - 40,
                    fw = 36, fh = 40\<rparr>, vx := 0, vy := 0,
              spawn := \<lparr>px = 60, py = of_int (ry \<lparr>rx = 48, ry = 240, rw = 48, rh = 48\<rparr>) - 40\<rparr>\<rparr>"
      by (rule start_level_on [where L = LEVEL_2 and y = 200,
            OF _ _ levels_nth(3) levels_rows(3) drop_level_2 first_under_spawn(3)])
         (simp_all add: levels_nth)
    then show ?thesis unfolding 3 by blast
  qed
  then obtain g' s where *: "start_level idx now g = Some g'"
      "find under_spawn (solids (store g')) = Some s"
      "player g' = (player g)
             \<lparr>r := \<lparr>fx = 60, fy = of_int (ry s) - 40, fw = 36, fh = 40\<rparr>, vx := 0, vy := 0,
              spawn := \<lparr>px = 60, py = of_int (ry s) - 40\<rparr>\<rparr>"
    by blast
  show ?thesis
    by (rule exI [of _ g'], rule exI [of _ s]) (simp add: * TILE_def)
qed

text \<open>The big player of \<open>big_game\<close> starts the third level with the small rectangle on the
  solid at row 5, and is still big.\<close>

theorem start_level_player_witness:
  "start_level 2 5 big_game \<noteq> None \<and>
   r (player (the (start_level 2 5 big_game))) = \<lparr>fx = 60, fy = 200, fw = 36, fh = 40\<rparr> \<and>
   vx (player (the (start_level 2 5 big_game))) = 0 \<and>
   vy (player (the (start_level 2 5 big_game))) = 0 \<and>
   spawn (player (the (start_level 2 5 big_game))) = \<lparr>px = 60, py = 200\<rparr> \<and>
   big (player (the (start_level 2 5 big_game))) = 1 \<and>
   big_timer (player (the (start_level 2 5 big_game))) = 7 \<and>
   p_coins (player (the (start_level 2 5 big_game))) = 4 \<and>
   score (player (the (start_level 2 5 big_game))) = 1100 \<and>
   lives (player (the (start_level 2 5 big_game))) = 2"
proof -
  have a: "(0 :: int) \<le> 2" "2 < NUM_LEVELS" by (simp_all add: NUM_LEVELS_def)
  from start_level_player [OF a, of 5 big_game] obtain g' s where
    g': "start_level 2 5 big_game = Some g'"
    and s: "find under_spawn (solids (store g')) = Some s"
    and p: "player g' = (player big_game)
             \<lparr>r := \<lparr>fx = 60, fy = of_int (ry s) - of_int (TILE - 8),
                    fw = of_int (TILE - 12), fh = of_int (TILE - 8)\<rparr>,
              vx := 0, vy := 0,
              spawn := \<lparr>px = 60, py = of_int (ry s) - of_int (TILE - 8)\<rparr>\<rparr>"
    by blast
  have "find under_spawn (solids (store (the (start_level 2 5 big_game))))
      = Some \<lparr>rx = 48, ry = 240, rw = 48, rh = 48\<rparr>"
    by code_simp
  with g' s have "ry s = 240" by simp
  moreover have "big (player big_game) = 1" "big_timer (player big_game) = 7"
    "p_coins (player big_game) = 4" "score (player big_game) = 1100" "lives (player big_game) = 2"
    by code_simp+
  ultimately show ?thesis
    using g' p by (simp add: TILE_def)
qed

section \<open>The player of the game\<close>

text \<open>
  \<open>game_player\<close> holds of the player that \<open>start_level\<close> sets up, and every step of the
  main loop keeps it: the width is never assigned again, the height changes only by half
  a tile up on growing and down on shrinking, and every vertical position is the result of
  a \<open>float\<close> operation.
\<close>

lemma game_player_eq:
  "fw (r q) = fw (r p) \<Longrightarrow> fh (r q) = fh (r p) \<Longrightarrow> fy (r q) = fy (r p) \<Longrightarrow> big q = big p \<Longrightarrow>
   py (spawn q) = py (spawn p) \<Longrightarrow> game_player q = game_player p"
  by (simp add: game_player_def)

lemma game_player_resolve_horz:
  "game_player (resolve_horz_collision sol p) = game_player p"
  by (rule game_player_eq) (simp_all add: resolve_horz_collision_def Let_def split: option.split)

lemma resolve_vert_fields:
  "fw (r (resolve_vert_collision sol p)) = fw (r p)"
  "fh (r (resolve_vert_collision sol p)) = fh (r p)"
  "big (resolve_vert_collision sol p) = big p"
  "spawn (resolve_vert_collision sol p) = spawn p"
  "is_f32 (fy (r p)) \<Longrightarrow> is_f32 (fy (r (resolve_vert_collision sol p)))"
  by (simp_all add: resolve_vert_collision_def Let_def is_f32_ops split: option.split)

lemma game_player_resolve_vert:
  "game_player p \<Longrightarrow> game_player (resolve_vert_collision sol p)"
  by (simp add: game_player_def resolve_vert_fields)

lemma game_player_move:
  "game_player p \<Longrightarrow> game_player (move_player keys sol p)"
proof -
  have 1: "game_player (apply_input keys p) = game_player p"
    by (rule game_player_eq) (simp_all add: apply_input_def Let_def)
  have 2: "game_player (apply_gravity q) = game_player q" for q
    by (rule game_player_eq) (simp_all add: apply_gravity_def Let_def)
  have 3: "game_player (apply_friction q) = game_player q" for q
    by (rule game_player_eq) (simp_all add: apply_friction_def Let_def)
  show "game_player p \<Longrightarrow> game_player (move_player keys sol p)"
    by (simp add: move_player_def 1 2 3 game_player_resolve_horz game_player_resolve_vert)
qed

lemma game_player_collect_coins:
  "game_player (snd (collect_coins cs p)) = game_player p"
proof (induction cs arbitrary: p)
  case Nil
  then show ?case by simp
next
  case (Cons c cs)
  have "game_player (snd (coin_step c p)) = game_player p"
    by (rule game_player_eq) (simp_all add: coin_step_def)
  with Cons.IH [of "snd (coin_step c p)"] show ?case by (simp add: split_def)
qed

lemma game_player_grow: "game_player p \<Longrightarrow> big p = 0 \<Longrightarrow> game_player (grow p)"
  by (auto simp: game_player_def grow_def game_heights float_of_half_tile fadd_def is_f32_ops)

lemma game_player_shrink: "game_player p \<Longrightarrow> big p \<noteq> 0 \<Longrightarrow> game_player (shrink p)"
  by (auto simp: game_player_def shrink_def game_heights float_of_half_tile fsub_def is_f32_ops)

lemma game_player_respawn: "game_player p \<Longrightarrow> game_player (respawn p)"
  by (simp add: game_player_def respawn_def)

lemma game_player_lose_life: "game_player (fst ps) \<Longrightarrow> game_player (fst (lose_life ps))"
  by (cases ps) (simp add: lose_life_def Let_def game_player_respawn)

lemma game_player_collect_mushrooms:
  "game_player p \<Longrightarrow> game_player (snd (collect_mushrooms ms p))"
proof (induction ms arbitrary: p)
  case Nil
  then show ?case by simp
next
  case (Cons m ms)
  have "game_player (p\<lparr>score := score p + 200\<rparr>) = game_player p"
    by (rule game_player_eq) simp_all
  with Cons.prems have "game_player (snd (mushroom_step m p))"
    by (simp add: mushroom_step_def game_player_grow)
  from Cons.IH [OF this] show ?case by (simp add: split_def)
qed

lemma game_player_enemy_contact:
  "game_player (fst ps) \<Longrightarrow> game_player (fst (snd (enemy_contact e ps)))"
proof -
  assume a: "game_player (fst ps)"
  obtain p st where ps: "ps = (p, st)" by (cases ps)
  have "game_player (p\<lparr>vy := v, score := s\<rparr>) = game_player p" for v s
    by (rule game_player_eq) simp_all
  with a ps game_player_lose_life [of "(p, st)"] show ?thesis
    by (simp add: enemy_contact_def Let_def game_player_shrink)
qed

lemma game_player_enemy_contacts:
  "game_player (fst ps) \<Longrightarrow> game_player (fst (snd (enemy_contacts es ps)))"
proof (induction es arbitrary: ps)
  case Nil
  then show ?case by simp
next
  case (Cons e es)
  from Cons.IH [of "snd (enemy_contact e ps)"] game_player_enemy_contact [OF Cons.prems, of e]
  show ?case by (simp add: split_def)
qed

lemma game_player_fall_check:
  "game_player (fst ps) \<Longrightarrow> game_player (fst (fall_check ps))"
  using game_player_lose_life [of ps] by (cases ps) (simp add: fall_check_def)

lemma game_player_big_timer_step: "game_player p \<Longrightarrow> game_player (big_timer_step p)"
proof -
  assume a: "game_player p"
  have "game_player (p\<lparr>big_timer := t\<rparr>) = game_player p" for t
    by (rule game_player_eq) simp_all
  with a show ?thesis
    by (simp add: big_timer_step_def Let_def game_player_shrink)
qed

lemma game_player_level_timer_step:
  "game_player (player g) \<Longrightarrow> game_player (player (level_timer_step now g))"
  using game_player_lose_life [of "(player g, state g)"]
  by (simp add: level_timer_step_def split_def)

lemma game_player_play_before_enemies:
  "game_player (player g) \<Longrightarrow> game_player (player (play_before_enemies inp g))"
  by (simp add: play_before_enemies_def Let_def split_def game_player_move
      game_player_collect_coins game_player_collect_mushrooms)

lemma game_player_play_before_goal:
  "game_player (player g) \<Longrightarrow> game_player (player (play_before_goal inp g))"
  by (simp add: play_before_goal_def Let_def split_def game_player_play_before_enemies
      game_player_enemy_contacts game_player_fall_check)

lemma game_player_play_update:
  "game_player (player g) \<Longrightarrow> game_player (player (play_update inp g))"
  by (simp add: play_update_def Let_def game_player_play_before_goal
      game_player_big_timer_step game_player_level_timer_step)

lemma drop_loop_rect:
  "is_f32 (fy temp) \<Longrightarrow>
   is_f32 (fy (drop_loop n sol v temp)) \<and> fw (drop_loop n sol v temp) = fw temp \<and>
   fh (drop_loop n sol v temp) = fh temp"
proof (induction n arbitrary: v temp)
  case 0
  then show ?case by simp
next
  case (Suc n)
  show ?case
  proof (cases "find (aabb_int (int_rect (temp\<lparr>fy := fadd (fy temp) (fadd v 1)\<rparr>))) sol")
    case None
    with Suc.IH [of "temp\<lparr>fy := fadd (fy temp) (fadd v 1)\<rparr>" "fadd v 1"] show ?thesis
      by (simp add: Let_def is_f32_ops)
  next
    case (Some s)
    then show ?thesis by (simp add: Let_def is_f32_ops)
  qed
qed

lemma game_player_start_level:
  assumes "start_level idx now g = Some g'"
  shows "game_player (player g')"
proof -
  from assms obtain lv where g': "g' = g\<lparr>store := lv,
      player := (player g)\<lparr>r := drop_loop 2000 (solids lv) 0
                \<lparr>fx = float_of_int 60, fy = float_of_int 0,
                 fw = float_of_int (TILE - 12), fh = float_of_int (TILE - 8)\<rparr>,
         vx := 0, vy := 0,
         spawn := \<lparr>px = fx (drop_loop 2000 (solids lv) 0
                \<lparr>fx = float_of_int 60, fy = float_of_int 0,
                 fw = float_of_int (TILE - 12), fh = float_of_int (TILE - 8)\<rparr>),
                   py = fy (drop_loop 2000 (solids lv) 0
                \<lparr>fx = float_of_int 60, fy = float_of_int 0,
                 fw = float_of_int (TILE - 12), fh = float_of_int (TILE - 8)\<rparr>)\<rparr>\<rparr>,
      level_time := 300, t0 := now\<rparr>"
    by (auto simp: start_level_def Let_def split: if_splits option.splits)
  have "is_f32 (fy \<lparr>fx = float_of_int 60, fy = float_of_int 0,
                 fw = float_of_int (TILE - 12), fh = float_of_int (TILE - 8)\<rparr>)"
    by (simp add: is_f32_ops)
  from drop_loop_rect [OF this, of 2000 "solids lv" 0] show ?thesis
    by (simp add: g' game_player_def)
qed

lemma game_player_handle_keydown:
  assumes "game_player (player g)" and "handle_keydown now k g = Some g'"
  shows "game_player (player g')"
proof -
  have jump: "game_player ((player g)\<lparr>vy := v\<rparr>) = game_player (player g)" for v
    by (rule game_player_eq) simp_all
  from assms jump show ?thesis
    by (cases k)
       (auto simp: handle_keydown_def Let_def game_player_start_level
             split: if_splits dest: game_player_start_level)
qed

lemma game_player_poll_events:
  assumes "game_player (player g)" and "poll_events now evs g = Some g'"
  shows "game_player (player g')"
  using assms
proof (induction evs arbitrary: g)
  case Nil
  then show ?case by simp
next
  case (Cons ev evs)
  from Cons.prems(2) obtain g1 where g1: "handle_event now ev g = Some g1"
      "poll_events now evs g1 = Some g'"
    by (auto split: option.splits)
  from g1(1) Cons.prems(1) have "game_player (player g1)"
    by (cases ev) (auto simp: handle_event_def dest: game_player_handle_keydown)
  from Cons.IH [OF this g1(2)] show ?case .
qed

lemma game_player_frame:
  assumes "game_player (player g)" and "frame inp g = Some g'"
  shows "game_player (player g')"
proof -
  from assms(2) obtain g1 where g1: "poll_events (ticks inp) (events inp) g = Some g1"
      "g' = (if state g1 = STATE_PLAY then play_update inp g1 else g1)"
    by (auto simp: frame_def split: option.splits)
  from game_player_poll_events [OF assms(1) g1(1)] show ?thesis
    by (simp add: g1(2) game_player_play_update)
qed

lemma game_player_run_frames:
  assumes "game_player (player g)" and "run_frames inps g = Some g'"
  shows "game_player (player g')"
  using assms
proof (induction inps arbitrary: g)
  case Nil
  then show ?case by simp
next
  case (Cons inp inps)
  show ?case
  proof (cases "running g = 0")
    case True
    with Cons.prems show ?thesis by simp
  next
    case False
    with Cons.prems(2) obtain g1 where g1: "frame inp g = Some g1" "run_frames inps g1 = Some g'"
      by (auto split: option.splits)
    from Cons.IH [OF game_player_frame [OF Cons.prems(1) g1(1)] g1(2)] show ?thesis .
  qed
qed

text \<open>
  The program calls \<open>start_level\<close> once before the loop. In every state that the loop
  reaches from there, whatever the inputs, the player is a player of the game.
\<close>

lemma game_player_always:
  assumes "start_level 0 now initial_game = Some g0" and "run_frames inps g0 = Some g"
  shows "game_player (player g)"
  using game_player_run_frames [OF game_player_start_level [OF assms(1)] assms(2)] .

section \<open>Horizontal collision\<close>

lemma find_first:
  assumes "i < length xs" and "P (xs ! i)" and "\<forall>k<i. \<not> P (xs ! k)"
  shows "find P xs = Some (xs ! i)"
  using assms by (auto simp: find_Some_iff)

text \<open>For the width \<open>TILE - 12\<close> and a tile between 0 and \<open>2^24\<close> the subtraction
  \<open>tile.x - w\<close> rounds nothing.\<close>

lemma fsub_tile_width:
  assumes "0 \<le> n" and "n \<le> 2 ^ 24"
  shows "fsub (float_of_int n) (float_of_int (TILE - 12)) = of_int n - 36"
proof -
  have w: "float_of_int (TILE - 12) = 36" by code_simp
  have "is_f32 (of_int n)" using assms by (intro is_f32_int) simp
  then have n: "float_of_int n = of_int n" by (simp add: float_of_int_def is_f32_def)
  have "is_f32 (of_int (n - 36))" using assms by (intro is_f32_int) simp
  then have "f32 (of_int n - 36) = of_int n - 36" by (simp add: is_f32_def)
  then show ?thesis by (simp add: fsub_def n w)
qed

text \<open>
  C5, amended. Let the player move right (\<open>vx > 0\<close>) and let its next-frame rectangle,
  rounded to integer coordinates as \<open>resolve_horz_collision\<close> tests it, overlap a solid;
  let \<open>sol ! i\<close> be the first such solid in array order. Then \<open>resolve_horz_collision\<close>
  stores \<open>(float) tile.x - w\<close> as the player's \<open>x\<close> and sets \<open>vx\<close> to zero, and leaves \<open>y\<close>,
  \<open>h\<close> and \<open>w\<close> alone. For the width \<open>TILE - 12\<close>, which is the width of the player in
  every state of the game, and a tile at \<open>0 \<le> x \<le> 2^24\<close>, which every tile of every level
  is, the right edge \<open>x + w\<close> is exactly the tile's left edge.
\<close>

theorem resolve_horz_collision_flush:
  assumes "0 < vx p"
    and "i < length sol" and "aabb_int (horz_test p) (sol ! i)"
    and "\<forall>k<i. \<not> aabb_int (horz_test p) (sol ! k)"
  shows "fx (r (resolve_horz_collision sol p)) = fsub (float_of_int (rx (sol ! i))) (fw (r p)) \<and>
         vx (resolve_horz_collision sol p) = 0 \<and>
         fy (r (resolve_horz_collision sol p)) = fy (r p) \<and>
         fh (r (resolve_horz_collision sol p)) = fh (r p) \<and>
         fw (r (resolve_horz_collision sol p)) = fw (r p) \<and>
         (fw (r p) = float_of_int (TILE - 12) \<and> 0 \<le> rx (sol ! i) \<and> rx (sol ! i) \<le> 2 ^ 24 \<longrightarrow>
            fx (r (resolve_horz_collision sol p)) + fw (r (resolve_horz_collision sol p))
              = of_int (rx (sol ! i)))"
proof -
  have "find (aabb_int (horz_test p)) sol = Some (sol ! i)"
    using assms(2-4) by (rule find_first)
  then have res: "resolve_horz_collision sol p =
      p\<lparr>r := (r p)\<lparr>fx := fsub (float_of_int (rx (sol ! i))) (fw (r p))\<rparr>, vx := 0\<rparr>"
    using assms(1) by (simp add: resolve_horz_collision_def horz_test_def Let_def)
  have w: "float_of_int (TILE - 12) = 36" by code_simp
  show ?thesis
    using fsub_tile_width [of "rx (sol ! i)"] by (auto simp: res w)
qed

text \<open>The player walking into the wall at 864 of the first level ends at \<open>x = 828\<close>, flush
  with the wall.\<close>

theorem resolve_horz_collision_flush_witness:
  "0 < vx player_at_wall \<and>
   aabb_int (horz_test player_at_wall) (built_solids LEVEL_0 ! 12) \<and>
   find (aabb_int (horz_test player_at_wall)) (built_solids LEVEL_0) = Some (built_solids LEVEL_0 ! 12) \<and>
   rx (built_solids LEVEL_0 ! 12) = 864 \<and>
   fx (r (resolve_horz_collision (built_solids LEVEL_0) player_at_wall)) = 828 \<and>
   fx (r (resolve_horz_collision (built_solids LEVEL_0) player_at_wall))
     + fw (r (resolve_horz_collision (built_solids LEVEL_0) player_at_wall)) = 864 \<and>
   vx (resolve_horz_collision (built_solids LEVEL_0) player_at_wall) = 0 \<and>
   fy (r (resolve_horz_collision (built_solids LEVEL_0) player_at_wall)) = 320"
proof -
  let ?sol = "built_solids LEVEL_0"
  have a1: "0 < vx player_at_wall" by code_simp
  have a2: "12 < length ?sol" by code_simp
  have a3: "aabb_int (horz_test player_at_wall) (?sol ! 12)" by code_simp
  have n0: "list_all (\<lambda>s. \<not> aabb_int (horz_test player_at_wall) s) (take 12 ?sol)" by code_simp
  then have a4: "\<forall>k<12. \<not> aabb_int (horz_test player_at_wall) (?sol ! k)"
    using a2 by (auto simp: list_all_length)
  have v: "rx (?sol ! 12) = 864" "fsub (float_of_int 864) (fw (r player_at_wall)) = 828"
    "fy (r player_at_wall) = 320" "fw (r player_at_wall) = float_of_int (TILE - 12)"
    by code_simp+
  have first: "find (aabb_int (horz_test player_at_wall)) ?sol = Some (?sol ! 12)"
    using a2 a3 a4 by (rule find_first)
  from resolve_horz_collision_flush [OF a1 a2 a3 a4] v a1 a3 first show ?thesis
    by simp
qed

text \<open>
  The claim speaks of the next-frame rectangle, the code tests the rounded one. The
  player at \<open>x = 827.75\<close> with \<open>vx = 0.5\<close> has the next-frame rectangle from \<open>828.25\<close> to
  \<open>864.25\<close>, a quarter of a pixel inside the tile at 864; the rounded rectangle ends at
  864 and overlaps nothing, so that the player moves on with its speed, and its right edge
  is inside the tile.
\<close>

theorem resolve_horz_collision_graze:
  "0 < vx grazing_player \<and>
   fw (r grazing_player) = float_of_int (TILE - 12) \<and>
   built_solids LEVEL_0 ! 12 = \<lparr>rx = 864, ry = 288, rw = 48, rh = 48\<rparr> \<and>
   overlaps ((r grazing_player)\<lparr>fx := fadd (fx (r grazing_player)) (vx grazing_player)\<rparr>)
     (built_solids LEVEL_0 ! 12) \<and>
   vx (resolve_horz_collision (built_solids LEVEL_0) grazing_player) = 1 / 2 \<and>
   fx (r (resolve_horz_collision (built_solids LEVEL_0) grazing_player))
     + fw (r (resolve_horz_collision (built_solids LEVEL_0) grazing_player)) = 864 + 1 / 4"
  by code_simp

section \<open>Enemy patrol\<close>






section \<open>Growing and shrinking\<close>

lemma mushroom_step_grow:
  "m_active m \<noteq> 0 \<Longrightarrow> aabb_int (int_rect (r p)) (m_r m) \<Longrightarrow> big p = 0 \<Longrightarrow>
   mushroom_step m p = (m\<lparr>m_active := 0\<rparr>, grow p)"
  by (simp add: mushroom_step_def)

lemma enemy_contact_shrink:
  "e_active e \<noteq> 0 \<Longrightarrow> aabb_int (int_rect (r p)) (e_r e) \<Longrightarrow>
   \<not> (0 < vy p \<and> fsub (fadd (fy (r p)) (fh (r p))) (float_of_int (ry (e_r e))) < 16) \<Longrightarrow>
   big p \<noteq> 0 \<Longrightarrow> enemy_contact e (p, st) = (e, shrink p, st)"
  by (auto simp: enemy_contact_def Let_def)

lemma big_timer_step_shrink:
  "big p \<noteq> 0 \<Longrightarrow> fsub (big_timer p) (fdiv 1 (float_of_int FPS)) \<le> 0 \<Longrightarrow>
   big_timer_step p = shrink (p\<lparr>big_timer := fsub (big_timer p) (fdiv 1 (float_of_int FPS))\<rparr>)"
  by (simp add: big_timer_step_def Let_def)

lemma rect_grow:
  "fh (r (grow p)) = f32 (fh (r p) + 24)" "fy (r (grow p)) = f32 (fy (r p) - 24)"
  "big (grow p) = 1" "vy (grow p) = vy p"
  by (simp_all add: grow_def fadd_def fsub_def float_of_half_tile)

lemma rect_shrink:
  "fh (r (shrink p)) = f32 (fh (r p) - 24)" "fy (r (shrink p)) = f32 (fy (r p) + 24)"
  "big (shrink p) = 0"
  by (simp_all add: shrink_def fadd_def fsub_def float_of_half_tile)

text \<open>A small player of the game that overlaps the mushroom of the third level is between
  \<open>116.5\<close> and \<open>179.5\<close> high, where taking 24 away rounds nothing.\<close>

lemma at_mushroom_exact:
  assumes "game_player p" and "big p = 0"
    and "aabb_int (int_rect (r p)) \<lparr>rx = 396, ry = 156, rw = 24, rh = 24\<rparr>"
  shows "is_f32 (fy (r p) - 24)"
proof -
  from assms(1,2) have h: "fh (r p) = of_int 40 \<or> fh (r p) = of_int 16" and y: "is_f32 (fy (r p))"
    by (auto simp: game_player_def game_heights)
  then have "int_of_float (roundf (fh (r p))) \<le> 40"
    by (auto simp only: int_of_roundf_int)
  with assms(3) have lo: "117 \<le> int_of_float (roundf (fy (r p)))"
    and hi: "int_of_float (roundf (fy (r p))) < 180"
    by (simp_all add: aabb_int_def int_rect_def)
  from lo have "1 \<le> int_of_float (roundf (fy (r p)))" by simp
  note b = roundf_pos_bounds [OF this]
  have "(117 :: rat) \<le> of_int (int_of_float (roundf (fy (r p))))" using lo by linarith
  with b(1) have "64 \<le> fy (r p)" by linarith
  have "(of_int (int_of_float (roundf (fy (r p)))) :: rat) \<le> 179" using hi by linarith
  with b(2) have "fy (r p) < 256" by linarith
  from is_f32_minus_24 [OF y \<open>64 \<le> fy (r p)\<close> this] show ?thesis .
qed

text \<open>
  C1. Within a level that \<open>start_level\<close> has built, let a small player of the game pick up
  a mushroom of the level. The pickup adds \<open>TILE/2\<close> to the height \<open>h\<close> of the rectangle
  and takes \<open>TILE/2\<close> from \<open>y\<close>, and a shrink that follows immediately, on the player as
  the pickup has left it, be it by contact with an enemy that is not stomped or by
  \<open>big_timer\<close> running out, gives \<open>h\<close> and \<open>y\<close> exactly their values before the pickup.
\<close>

theorem grow_then_shrink_restores:
  assumes "game_player p" and "big p = 0"
    and "start_level idx now g0 = Some g1" and "m \<in> set (mush (store g1))"
    and "aabb_int (int_rect (r p)) (m_r m)"
    and "p1 = snd (mushroom_step m p)"
  shows "fh (r p1) = fh (r p) + of_int (TILE div 2) \<and>
         fy (r p1) = fy (r p) - of_int (TILE div 2) \<and> big p1 \<noteq> 0 \<and>
         (e_active e \<noteq> 0 \<and> aabb_int (int_rect (r p1)) (e_r e) \<and>
          \<not> (0 < vy p1 \<and> fsub (fadd (fy (r p1)) (fh (r p1))) (float_of_int (ry (e_r e))) < 16) \<longrightarrow>
            fh (r (fst (snd (enemy_contact e (p1, st))))) = fh (r p) \<and>
            fy (r (fst (snd (enemy_contact e (p1, st))))) = fy (r p) \<and>
            big (fst (snd (enemy_contact e (p1, st)))) = 0) \<and>
         (fsub t (fdiv 1 (float_of_int FPS)) \<le> 0 \<longrightarrow>
            fh (r (big_timer_step (p1\<lparr>big_timer := t\<rparr>))) = fh (r p) \<and>
            fy (r (big_timer_step (p1\<lparr>big_timer := t\<rparr>))) = fy (r p) \<and>
            big (big_timer_step (p1\<lparr>big_timer := t\<rparr>)) = 0)"
proof -
  have half: "(of_int (TILE div 2) :: rat) = 24" by (simp add: TILE_def)
  from start_level_mush [OF assms(3,4)]
  have m: "m = \<lparr>m_r = \<lparr>rx = 396, ry = 156, rw = 24, rh = 24\<rparr>, m_active = 1\<rparr>" .
  with assms(5) have ov: "aabb_int (int_rect (r p)) \<lparr>rx = 396, ry = 156, rw = 24, rh = 24\<rparr>"
    by simp
  have p1: "p1 = grow p"
    using assms(2,5) m by (simp add: assms(6) mushroom_step_grow)
  from assms(1,2) have h: "fh (r p) = 40 \<or> fh (r p) = 16" and y: "is_f32 (fy (r p))"
    by (auto simp: game_player_def game_heights)
  from h have hg: "f32 (fh (r p) + 24) = fh (r p) + 24" and hs: "f32 (fh (r p) + 24 - 24) = fh (r p)"
    by (auto simp: game_heights)
  from at_mushroom_exact [OF assms(1,2) ov]
  have yg: "f32 (fy (r p) - 24) = fy (r p) - 24" by (simp add: is_f32_def)
  from y have ys: "f32 (fy (r p) - 24 + 24) = fy (r p)" by (simp add: is_f32_def)
  have grown: "fh (r p1) = fh (r p) + 24" "fy (r p1) = fy (r p) - 24" "big p1 = 1"
    by (simp_all add: p1 rect_grow hg yg)
  have shrunk: "fh (r (shrink q)) = fh (r p) \<and> fy (r (shrink q)) = fy (r p) \<and> big (shrink q) = 0"
    if "r q = r p1" for q
    using that grown hs ys by (simp add: rect_shrink)
  have contact: "fh (r (fst (snd (enemy_contact e (p1, st))))) = fh (r p) \<and>
            fy (r (fst (snd (enemy_contact e (p1, st))))) = fy (r p) \<and>
            big (fst (snd (enemy_contact e (p1, st)))) = 0"
    if "e_active e \<noteq> 0 \<and> aabb_int (int_rect (r p1)) (e_r e) \<and>
          \<not> (0 < vy p1 \<and> fsub (fadd (fy (r p1)) (fh (r p1))) (float_of_int (ry (e_r e))) < 16)"
  proof -
    from that grown(3) have "enemy_contact e (p1, st) = (e, shrink p1, st)"
      by (intro enemy_contact_shrink) simp_all
    then show ?thesis using shrunk [of p1] by simp
  qed
  have timer: "fh (r (big_timer_step (p1\<lparr>big_timer := t\<rparr>))) = fh (r p) \<and>
            fy (r (big_timer_step (p1\<lparr>big_timer := t\<rparr>))) = fy (r p) \<and>
            big (big_timer_step (p1\<lparr>big_timer := t\<rparr>)) = 0"
    if "fsub t (fdiv 1 (float_of_int FPS)) \<le> 0"
  proof -
    from that grown(3)
    have "big_timer_step (p1\<lparr>big_timer := t\<rparr>) =
        shrink (p1\<lparr>big_timer := fsub t (fdiv 1 (float_of_int FPS))\<rparr>)"
      using big_timer_step_shrink [of "p1\<lparr>big_timer := t\<rparr>"] by simp
    then show ?thesis using shrunk [of "p1\<lparr>big_timer := fsub t (fdiv 1 (float_of_int FPS))\<rparr>"]
      by simp
  qed
  from grown contact timer show ?thesis by (simp add: half)
qed

text \<open>The player at height \<open>150.5\<close> on the mushroom of the third level: growing gives
  \<open>126.5\<close> and height \<open>64\<close>, and both ways of shrinking give \<open>150.5\<close> and \<open>40\<close> back.\<close>

theorem grow_then_shrink_restores_witness:
  "big player_at_mushroom = 0 \<and>
   start_level 2 0 initial_game \<noteq> None \<and>
   mush (store (the (start_level 2 0 initial_game))) = [mushroom_3] \<and>
   aabb_int (int_rect (r player_at_mushroom)) (m_r mushroom_3) \<and>
   r (snd (mushroom_step mushroom_3 player_at_mushroom)) = \<lparr>fx = 396, fy = 253 / 2, fw = 36, fh = 64\<rparr> \<and>
   fh (r (fst (snd (enemy_contact enemy_at_mushroom
      (snd (mushroom_step mushroom_3 player_at_mushroom), STATE_PLAY))))) = fh (r player_at_mushroom) \<and>
   fy (r (fst (snd (enemy_contact enemy_at_mushroom
      (snd (mushroom_step mushroom_3 player_at_mushroom), STATE_PLAY))))) = fy (r player_at_mushroom) \<and>
   fh (r (big_timer_step ((snd (mushroom_step mushroom_3 player_at_mushroom))\<lparr>big_timer := f32 (1 / 100)\<rparr>)))
     = fh (r player_at_mushroom) \<and>
   fy (r (big_timer_step ((snd (mushroom_step mushroom_3 player_at_mushroom))\<lparr>big_timer := f32 (1 / 100)\<rparr>)))
     = fy (r player_at_mushroom)"
proof -
  let ?p = player_at_mushroom
  let ?p1 = "snd (mushroom_step mushroom_3 ?p)"
  have a1: "game_player ?p" by code_simp
  have a2: "big ?p = 0" by code_simp
  have st: "start_level 2 0 initial_game \<noteq> None" by code_simp
  then have a3: "start_level 2 0 initial_game = Some (the (start_level 2 0 initial_game))" by simp
  have ms: "mush (store (the (start_level 2 0 initial_game))) = [mushroom_3]" by code_simp
  then have a4: "mushroom_3 \<in> set (mush (store (the (start_level 2 0 initial_game))))" by simp
  have a5: "aabb_int (int_rect (r ?p)) (m_r mushroom_3)" by code_simp
  have e: "e_active enemy_at_mushroom \<noteq> 0 \<and> aabb_int (int_rect (r ?p1)) (e_r enemy_at_mushroom) \<and>
      \<not> (0 < vy ?p1 \<and>
      fsub (fadd (fy (r ?p1)) (fh (r ?p1))) (float_of_int (ry (e_r enemy_at_mushroom))) < 16)"
    by code_simp
  have t: "fsub (f32 (1 / 100)) (fdiv 1 (float_of_int FPS)) \<le> 0" by code_simp
  have grown: "r ?p1 = \<lparr>fx = 396, fy = 253 / 2, fw = 36, fh = 64\<rparr>" by code_simp
  from grow_then_shrink_restores [OF a1 a2 a3 a4 a5 refl, of enemy_at_mushroom STATE_PLAY "f32 (1 / 100)"]
    e t a2 a5 st ms grown
  show ?thesis by simp
qed

section \<open>Coins\<close>

lemma coin_step_cases:
  "coin_step c p =
     (if c_active c \<noteq> 0 \<and> aabb_int (int_rect (r p)) (c_r c)
      then (c\<lparr>c_active := 0\<rparr>, p\<lparr>p_coins := p_coins p + 1, score := score p + 100\<rparr>)
      else (c, p))"
  by (simp add: coin_step_def)

lemma collect_coins_eq:
  "collect_coins cs p =
     (map (\<lambda>c. if c_active c \<noteq> 0 \<and> aabb_int (int_rect (r p)) (c_r c) then c\<lparr>c_active := 0\<rparr> else c) cs,
      p\<lparr>p_coins := p_coins p + coin_hits cs p, score := score p + 100 * coin_hits cs p\<rparr>)"
proof (induction cs arbitrary: p)
  case Nil
  then show ?case by (simp add: coin_hits_def)
next
  case (Cons c cs)
  show ?case
  proof (cases "c_active c \<noteq> 0 \<and> aabb_int (int_rect (r p)) (c_r c)")
    case True
    then have "coin_step c p = (c\<lparr>c_active := 0\<rparr>, p\<lparr>p_coins := p_coins p + 1, score := score p + 100\<rparr>)"
      by (simp add: coin_step_cases)
    with True show ?thesis by (simp add: Cons.IH coin_hits_def)
  next
    case False
    then have "coin_step c p = (c, p)" by (auto simp: coin_step_cases)
    with False show ?thesis by (simp add: Cons.IH coin_hits_def)
  qed
qed

lemma counters_resolve_horz:
  "p_coins (resolve_horz_collision sol p) = p_coins p" "score (resolve_horz_collision sol p) = score p"
  "big (resolve_horz_collision sol p) = big p"
  by (simp_all add: resolve_horz_collision_def Let_def split: option.split)

lemma counters_resolve_vert:
  "p_coins (resolve_vert_collision sol p) = p_coins p" "score (resolve_vert_collision sol p) = score p"
  "big (resolve_vert_collision sol p) = big p"
  by (simp_all add: resolve_vert_collision_def Let_def split: option.split)

lemma counters_move_player:
  "p_coins (move_player keys sol p) = p_coins p" "score (move_player keys sol p) = score p"
  "big (move_player keys sol p) = big p"
  by (simp_all add: move_player_def apply_friction_def apply_gravity_def apply_input_def Let_def
      counters_resolve_horz counters_resolve_vert)

lemma active_mush_Cons:
  "active_mush (m # ms) = (if m_active m \<noteq> 0 then 1 else 0) + active_mush ms"
  by (simp add: active_mush_def)

lemma active_enemies_Cons:
  "active_enemies (e # es) = (if e_active e \<noteq> 0 then 1 else 0) + active_enemies es"
  by (simp add: active_enemies_def)

lemma big_collect_mushrooms: "big p \<noteq> 0 \<Longrightarrow> big (snd (collect_mushrooms ms p)) \<noteq> 0"
proof (induction ms arbitrary: p)
  case Nil
  then show ?case by simp
next
  case (Cons m ms)
  from Cons.prems have "big (snd (mushroom_step m p)) \<noteq> 0"
    by (simp add: mushroom_step_def)
  from Cons.IH [OF this] show ?case by (simp add: split_def)
qed

lemma collect_mushrooms_counters:
  "p_coins (snd (collect_mushrooms ms p)) = p_coins p \<and>
   score (snd (collect_mushrooms ms p)) =
     score p + 200 * (active_mush ms - active_mush (fst (collect_mushrooms ms p))) +
     300 * (if big p = 0 \<and> big (snd (collect_mushrooms ms p)) \<noteq> 0 then 1 else 0)"
proof (induction ms arbitrary: p)
  case Nil
  then show ?case by simp
next
  case (Cons m ms)
  let ?res = "collect_mushrooms ms (snd (mushroom_step m p))"
  consider (grow) "m_active m \<noteq> 0" "aabb_int (int_rect (r p)) (m_r m)" "big p = 0"
    | (bonus) "m_active m \<noteq> 0" "aabb_int (int_rect (r p)) (m_r m)" "big p \<noteq> 0"
    | (none) "\<not> (m_active m \<noteq> 0 \<and> aabb_int (int_rect (r p)) (m_r m))"
    by blast
  then show ?case
  proof cases
    case grow
    then have step: "mushroom_step m p = (m\<lparr>m_active := 0\<rparr>, grow p)"
      by (simp add: mushroom_step_def)
    have b: "big (grow p) \<noteq> 0" by (simp add: grow_def)
    from big_collect_mushrooms [OF b, of ms]
    have "big (snd (collect_mushrooms ms (grow p))) \<noteq> 0" .
    with Cons.IH [of "grow p"] grow b show ?thesis
      by (simp add: step split_def active_mush_Cons) (simp add: grow_def)
  next
    case bonus
    then have step: "mushroom_step m p = (m\<lparr>m_active := 0\<rparr>, p\<lparr>score := score p + 200\<rparr>)"
      by (simp add: mushroom_step_def)
    with Cons.IH [of "p\<lparr>score := score p + 200\<rparr>"] bonus show ?thesis
      by (simp add: step split_def active_mush_Cons)
  next
    case none
    then have step: "mushroom_step m p = (m, p)"
      by (auto simp: mushroom_step_def)
    with Cons.IH [of p] show ?thesis
      by (simp add: step split_def active_mush_Cons)
  qed
qed

lemma enemy_contact_counters:
  "p_coins (fst (snd (enemy_contact e ps))) = p_coins (fst ps) \<and>
   score (fst (snd (enemy_contact e ps))) =
     score (fst ps) + 200 * ((if e_active e \<noteq> 0 then 1 else 0) -
        (if e_active (fst (enemy_contact e ps)) \<noteq> 0 then 1 else 0))"
  by (cases ps) (simp add: enemy_contact_def shrink_def lose_life_def respawn_def Let_def)

lemma enemy_contacts_counters:
  "p_coins (fst (snd (enemy_contacts es ps))) = p_coins (fst ps) \<and>
   score (fst (snd (enemy_contacts es ps))) =
     score (fst ps) + 200 * (active_enemies es - active_enemies (fst (enemy_contacts es ps)))"
proof (induction es arbitrary: ps)
  case Nil
  then show ?case by simp
next
  case (Cons e es)
  from Cons.IH [of "snd (enemy_contact e ps)"] enemy_contact_counters [of e ps]
  show ?case by (simp add: split_def active_enemies_Cons)
qed

lemma active_enemies_step: "active_enemies (map (enemy_step sol) es) = active_enemies es"
proof -
  have "e_active (enemy_step sol e) = e_active e" for e
    by (simp add: enemy_step_def Let_def)
  then show ?thesis by (simp add: active_enemies_def filter_map comp_def)
qed

lemma counters_fall_check:
  "p_coins (fst (fall_check ps)) = p_coins (fst ps)" "score (fst (fall_check ps)) = score (fst ps)"
  by (cases ps; simp add: fall_check_def lose_life_def respawn_def Let_def)+

lemma play_before_enemies_counters:
  "p_coins (player (play_before_enemies inp g)) = p_coins (player g) + coins_in_pass inp g"
  "score (player (play_before_enemies inp g)) =
     score (player g) + 100 * coins_in_pass inp g +
     200 * (active_mush (mush (store g)) - active_mush (mush (store (play_before_enemies inp g)))) +
     300 * grows_in_pass inp g"
  "active_enemies (enemies (store (play_before_enemies inp g))) = active_enemies (enemies (store g))"
proof -
  let ?p1 = "move_player (keystate inp) (solids (store g)) (player g)"
  let ?p2 = "snd (collect_coins (coins (store g)) ?p1)"
  have p2: "p_coins ?p2 = p_coins (player g) + coins_in_pass inp g"
      "score ?p2 = score (player g) + 100 * coins_in_pass inp g" "big ?p2 = big (player g)"
    by (simp_all add: collect_coins_eq counters_move_player coins_in_pass_def)
  have pl: "player (play_before_enemies inp g) = snd (collect_mushrooms (mush (store g)) ?p2)"
    and ms: "mush (store (play_before_enemies inp g)) = fst (collect_mushrooms (mush (store g)) ?p2)"
    and es: "enemies (store (play_before_enemies inp g)) =
        map (enemy_step (solids (store g))) (enemies (store g))"
    by (simp_all add: play_before_enemies_def Let_def split_def update_enemies_def)
  note m = collect_mushrooms_counters [of "mush (store g)" ?p2]
  show "p_coins (player (play_before_enemies inp g)) = p_coins (player g) + coins_in_pass inp g"
    using m p2 by (simp add: pl)
  show "score (player (play_before_enemies inp g)) =
     score (player g) + 100 * coins_in_pass inp g +
     200 * (active_mush (mush (store g)) - active_mush (mush (store (play_before_enemies inp g)))) +
     300 * grows_in_pass inp g"
    using m p2 unfolding grows_in_pass_def pl ms by simp
  show "active_enemies (enemies (store (play_before_enemies inp g))) = active_enemies (enemies (store g))"
    by (simp add: es active_enemies_step)
qed

lemma play_update_store:
  "mush (store (play_update inp g)) = mush (store (play_before_enemies inp g))"
  "enemies (store (play_update inp g)) =
     fst (enemy_contacts (enemies (store (play_before_enemies inp g)))
        (player (play_before_enemies inp g), state (play_before_enemies inp g)))"
  by (simp_all add: play_update_def play_before_goal_def Let_def level_timer_step_def split_def)

lemma play_update_player:
  "p_coins (player (play_update inp g)) =
     p_coins (fst (snd (enemy_contacts (enemies (store (play_before_enemies inp g)))
        (player (play_before_enemies inp g), state (play_before_enemies inp g)))))"
  "score (player (play_update inp g)) =
     score (fst (snd (enemy_contacts (enemies (store (play_before_enemies inp g)))
        (player (play_before_enemies inp g), state (play_before_enemies inp g)))))"
  by (simp_all add: play_update_def play_before_goal_def Let_def level_timer_step_def
      lose_life_def respawn_def big_timer_step_def shrink_def split_def counters_fall_check)

lemma play_update_counters:
  "p_coins (player (play_update inp g)) = p_coins (player g) + coins_in_pass inp g"
  "score (player (play_update inp g)) =
     score (player g) + 100 * coins_in_pass inp g + 200 * stomps_in_pass inp g +
     200 * mushrooms_in_pass inp g + 300 * grows_in_pass inp g"
proof -
  let ?g3 = "play_before_enemies inp g"
  note b = play_before_enemies_counters [where inp = inp and g = g]
  note e = enemy_contacts_counters [of "enemies (store ?g3)" "(player ?g3, state ?g3)"]
  show "p_coins (player (play_update inp g)) = p_coins (player g) + coins_in_pass inp g"
    using b(1) e by (simp add: play_update_player)
  show "score (player (play_update inp g)) =
     score (player g) + 100 * coins_in_pass inp g + 200 * stomps_in_pass inp g +
     200 * mushrooms_in_pass inp g + 300 * grows_in_pass inp g"
    using b(2,3) e
    by (simp add: play_update_player play_update_store stomps_in_pass_def mushrooms_in_pass_def)
qed

lemma level_idx_play_update: "level_idx (play_update inp g) = level_idx g"
  by (simp add: play_update_def play_before_goal_def play_before_enemies_def Let_def
      level_timer_step_def split_def)

lemma handle_keydown_counters:
  assumes "k \<noteq> SDLK_RETURN" and "0 \<le> level_idx g" and "level_idx g < NUM_LEVELS"
  shows "\<exists>g'. handle_keydown now k g = Some g' \<and> level_idx g' = level_idx g \<and>
           p_coins (player g') = p_coins (player g) \<and> score (player g') = score (player g)"
proof (cases "k = SDLK_r")
  case True
  with assms start_level_keeps [OF assms(2,3), of now g] show ?thesis
    by (auto simp: handle_keydown_def Let_def)
next
  case False
  with assms show ?thesis
    by (cases k) (simp_all add: handle_keydown_def Let_def)
qed

lemma handle_event_counters:
  assumes "ev \<noteq> SDL_KEYDOWN SDLK_RETURN" and "0 \<le> level_idx g" and "level_idx g < NUM_LEVELS"
  shows "\<exists>g'. handle_event now ev g = Some g' \<and> level_idx g' = level_idx g \<and>
           p_coins (player g') = p_coins (player g) \<and> score (player g') = score (player g)"
proof (cases ev)
  case SDL_QUIT
  then show ?thesis by (simp add: handle_event_def)
next
  case (SDL_KEYDOWN k)
  with assms handle_keydown_counters [OF _ assms(2,3), of k now] show ?thesis
    by (simp add: handle_event_def)
next
  case SDL_other_event
  then show ?thesis by (simp add: handle_event_def)
qed

lemma poll_events_counters:
  assumes "SDL_KEYDOWN SDLK_RETURN \<notin> set evs" and "0 \<le> level_idx g" and "level_idx g < NUM_LEVELS"
  shows "\<exists>g'. poll_events now evs g = Some g' \<and> level_idx g' = level_idx g \<and>
           p_coins (player g') = p_coins (player g) \<and> score (player g') = score (player g)"
  using assms
proof (induction evs arbitrary: g)
  case Nil
  then show ?case by simp
next
  case (Cons ev evs)
  from Cons.prems have "ev \<noteq> SDL_KEYDOWN SDLK_RETURN" by auto
  from handle_event_counters [OF this Cons.prems(2,3), of now]
  obtain g1 where g1: "handle_event now ev g = Some g1" "level_idx g1 = level_idx g"
      "p_coins (player g1) = p_coins (player g)" "score (player g1) = score (player g)"
    by blast
  with Cons.prems have "\<exists>g'. poll_events now evs g1 = Some g' \<and> level_idx g' = level_idx g1 \<and>
           p_coins (player g') = p_coins (player g1) \<and> score (player g') = score (player g1)"
    by (intro Cons.IH) simp_all
  with g1 show ?case by simp
qed

lemma run_frames_counters:
  assumes "\<forall>i\<in>set inps. SDL_KEYDOWN SDLK_RETURN \<notin> set (events i)"
    and "0 \<le> level_idx g" and "level_idx g < NUM_LEVELS"
  shows "\<exists>g'. run_frames inps g = Some g' \<and>
           p_coins (player g') = p_coins (player g) + over_run coins_in_pass inps g \<and>
           score (player g') = score (player g) + 100 * over_run coins_in_pass inps g +
             200 * over_run stomps_in_pass inps g + 200 * over_run mushrooms_in_pass inps g +
             300 * over_run grows_in_pass inps g"
  using assms
proof (induction inps arbitrary: g)
  case Nil
  then show ?case by simp
next
  case (Cons inp inps)
  show ?case
  proof (cases "running g = 0")
    case True
    then show ?thesis by simp
  next
    case False
    from Cons.prems have "SDL_KEYDOWN SDLK_RETURN \<notin> set (events inp)" by simp
    from poll_events_counters [OF this Cons.prems(2,3), of "ticks inp"]
    obtain g1 where g1: "poll_events (ticks inp) (events inp) g = Some g1"
        "level_idx g1 = level_idx g"
        "p_coins (player g1) = p_coins (player g)" "score (player g1) = score (player g)"
      by blast
    show ?thesis
    proof (cases "state g1 = STATE_PLAY")
      case True
      then have fr: "frame inp g = Some (play_update inp g1)" by (simp add: frame_def g1)
      have ov: "over_run f (inp # inps) g = f inp g1 + over_run f inps (play_update inp g1)" for f
        using False True g1 by simp
      from Cons.prems g1 obtain g' where g': "run_frames inps (play_update inp g1) = Some g'"
          "p_coins (player g') = p_coins (player (play_update inp g1)) +
             over_run coins_in_pass inps (play_update inp g1)"
          "score (player g') = score (player (play_update inp g1)) +
             100 * over_run coins_in_pass inps (play_update inp g1) +
             200 * over_run stomps_in_pass inps (play_update inp g1) +
             200 * over_run mushrooms_in_pass inps (play_update inp g1) +
             300 * over_run grows_in_pass inps (play_update inp g1)"
        using Cons.IH [of "play_update inp g1"] by (auto simp: level_idx_play_update)
      note c = play_update_counters [where inp = inp and g = g1]
      from g' c g1 False fr show ?thesis by (simp add: ov del: over_run.simps)
    next
      case other: False
      then have fr: "frame inp g = Some g1" by (simp add: frame_def g1)
      have ov: "over_run f (inp # inps) g = over_run f inps g1" for f
        using False other g1 by simp
      from Cons.prems g1 have "\<exists>g'. run_frames inps g1 = Some g' \<and>
           p_coins (player g') = p_coins (player g1) + over_run coins_in_pass inps g1 \<and>
           score (player g') = score (player g1) + 100 * over_run coins_in_pass inps g1 +
             200 * over_run stomps_in_pass inps g1 + 200 * over_run mushrooms_in_pass inps g1 +
             300 * over_run grows_in_pass inps g1"
        by (intro Cons.IH) simp_all
      with g1 False fr show ?thesis by (simp add: ov del: over_run.simps)
    qed
  qed
qed

text \<open>
  C4, amended. One pass of the coin loop with \<open>N\<close> active coins under the player's
  rounded rectangle adds exactly \<open>N\<close> to the coin count and \<open>100 * N\<close> to the score, clears
  the \<open>active\<close> flag of those coins and changes nothing else. A coin whose flag is cleared
  changes nothing when it is met again, so a second pass over the result leaves coins and
  player as they are. Over any sequence of passes of the main loop in one level, that is,
  without Enter, the coin count grows by exactly the number \<open>N\<close> of coins collected, and
  the score by exactly \<open>100 * N\<close> plus the other awards of the same passes: 200 for every
  enemy stomped, 200 for every mushroom taken and 300 more when the mushroom makes the
  player grow. So the score grows by exactly \<open>100 * N\<close> when no enemy is stomped and no
  mushroom taken.
\<close>

theorem collect_coins_score:
  "(collect_coins cs p = (cs', p') \<longrightarrow>
      p' = p\<lparr>p_coins := p_coins p + coin_hits cs p, score := score p + 100 * coin_hits cs p\<rparr> \<and>
      cs' = map (\<lambda>c. if c_active c \<noteq> 0 \<and> aabb_int (int_rect (r p)) (c_r c)
                      then c\<lparr>c_active := 0\<rparr> else c) cs \<and>
      collect_coins cs' p' = (cs', p')) \<and>
   (c_active c = 0 \<longrightarrow> coin_step c q = (c, q)) \<and>
   ((\<forall>i\<in>set inps. SDL_KEYDOWN SDLK_RETURN \<notin> set (events i)) \<and>
    0 \<le> level_idx g \<and> level_idx g < NUM_LEVELS \<longrightarrow>
      (\<exists>g'. run_frames inps g = Some g' \<and>
            p_coins (player g') = p_coins (player g) + coins_taken inps g \<and>
            score (player g') = score (player g) + 100 * coins_taken inps g +
              200 * enemies_stomped inps g + 200 * mushrooms_taken inps g +
              300 * times_grown inps g))"
proof (intro conjI impI)
  let ?hit = "\<lambda>c. c_active c \<noteq> 0 \<and> aabb_int (int_rect (r p)) (c_r c)"
  assume a: "collect_coins cs p = (cs', p')"
  then show p': "p' = p\<lparr>p_coins := p_coins p + coin_hits cs p,
             score := score p + 100 * coin_hits cs p\<rparr>"
    and cs': "cs' = map (\<lambda>c. if ?hit c then c\<lparr>c_active := 0\<rparr> else c) cs"
    by (simp_all add: collect_coins_eq)
  have same_rect: "r p' = r p" by (simp add: p')
  have "coin_hits cs' p = 0"
    by (auto simp: cs' coin_hits_def filter_empty_conv)
  moreover have "map (\<lambda>c. if ?hit c then c\<lparr>c_active := 0\<rparr> else c) cs' = cs'"
    by (auto simp: cs' intro!: map_idI)
  moreover have "coin_hits cs' p' = coin_hits cs' p"
    by (simp add: coin_hits_def same_rect)
  ultimately show "collect_coins cs' p' = (cs', p')"
    by (simp add: collect_coins_eq [of cs' p'] same_rect)
next
  assume "c_active c = 0"
  then show "coin_step c q = (c, q)" by (simp add: coin_step_def)
next
  assume "(\<forall>i\<in>set inps. SDL_KEYDOWN SDLK_RETURN \<notin> set (events i)) \<and>
    0 \<le> level_idx g \<and> level_idx g < NUM_LEVELS"
  then show "\<exists>g'. run_frames inps g = Some g' \<and>
            p_coins (player g') = p_coins (player g) + coins_taken inps g \<and>
            score (player g') = score (player g) + 100 * coins_taken inps g +
              200 * enemies_stomped inps g + 200 * mushrooms_taken inps g +
              300 * times_grown inps g"
    using run_frames_counters [of inps g]
    by (simp add: coins_taken_def enemies_stomped_def mushrooms_taken_def times_grown_def)
qed

text \<open>Three coins, the first two under the player: two coins and 200 points more, and a
  second pass changes nothing. In \<open>coin_game\<close> two passes of the main loop collect two
  coins, stomp no enemy and take no mushroom, and add 2 to the coin count and 200 to the
  score.\<close>

theorem collect_coins_score_witness:
  "coin_hits three_coins walking_player = 2 \<and>
   p_coins (snd (collect_coins three_coins walking_player)) = p_coins walking_player + 2 \<and>
   score (snd (collect_coins three_coins walking_player)) = score walking_player + 200 \<and>
   map c_active (fst (collect_coins three_coins walking_player)) = [0, 0, 1] \<and>
   collect_coins (fst (collect_coins three_coins walking_player))
       (snd (collect_coins three_coins walking_player))
     = collect_coins three_coins walking_player \<and>
   coin_step (hd (fst (collect_coins three_coins walking_player))) walking_player
     = (hd (fst (collect_coins three_coins walking_player)), walking_player) \<and>
   run_frames two_passes coin_game \<noteq> None \<and>
   coins_taken two_passes coin_game = 2 \<and>
   enemies_stomped two_passes coin_game = 0 \<and>
   mushrooms_taken two_passes coin_game = 0 \<and>
   times_grown two_passes coin_game = 0 \<and>
   p_coins (player (the (run_frames two_passes coin_game))) = p_coins (player coin_game) + 2 \<and>
   score (player (the (run_frames two_passes coin_game))) = score (player coin_game) + 200"
proof -
  let ?res = "collect_coins three_coins walking_player"
  have n: "coin_hits three_coins walking_player = 2" by code_simp
  have fl: "map c_active (fst ?res) = [0, 0, 1]" by code_simp
  have off: "c_active (hd (fst ?res)) = 0" by code_simp
  have keys: "(\<forall>i\<in>set two_passes. SDL_KEYDOWN SDLK_RETURN \<notin> set (events i)) \<and>
      0 \<le> level_idx coin_game \<and> level_idx coin_game < NUM_LEVELS"
    by (simp add: two_passes_def coin_game_def NUM_LEVELS_def)
  have counts: "coins_taken two_passes coin_game = 2" "enemies_stomped two_passes coin_game = 0"
    "mushrooms_taken two_passes coin_game = 0" "times_grown two_passes coin_game = 0"
    by code_simp+
  have "?res = (fst ?res, snd ?res)" by simp
  with collect_coins_score [of three_coins walking_player "fst ?res" "snd ?res"
      "hd (fst ?res)" walking_player two_passes coin_game] n fl off keys counts
  show ?thesis by auto
qed

text \<open>
  The score does not grow by \<open>100 * N\<close> over every sequence of passes: in one pass the
  falling player collects the one coin of the level, so that \<open>N = 1\<close>, and stomps the enemy
  below it, and the score grows by 300.
\<close>

theorem coin_and_stomp_in_one_pass:
  "state stomp_coin_game = STATE_PLAY \<and>
   active_coins (coins (store stomp_coin_game)) = 1 \<and>
   coins_taken [early_input] stomp_coin_game = 1 \<and>
   enemies_stomped [early_input] stomp_coin_game = 1 \<and>
   run_frames [early_input] stomp_coin_game \<noteq> None \<and>
   active_coins (coins (store (the (run_frames [early_input] stomp_coin_game)))) = 0 \<and>
   p_coins (player (the (run_frames [early_input] stomp_coin_game)))
     = p_coins (player stomp_coin_game) + 1 \<and>
   score (player (the (run_frames [early_input] stomp_coin_game)))
     = score (player stomp_coin_game) + 300"
  by code_simp

section \<open>Contact with an enemy\<close>

text \<open>The play update up to the goal check in one piece, as the source has it.\<close>

lemma play_before_goal_in_one:
  "play_before_goal inp g =
     (let lv = store g;
          p1 = move_player (keystate inp) (solids lv) (player g);
          (cs, p2) = collect_coins (coins lv) p1;
          (ms, p3) = collect_mushrooms (mush lv) p2;
          lv1 = update_enemies (lv\<lparr>coins := cs, mush := ms\<rparr>);
          (es, p4, st4) = enemy_contacts (enemies lv1) (p3, state g);
          (p5, st5) = fall_check (p4, st4)
      in g\<lparr>store := lv1\<lparr>enemies := es\<rparr>, player := p5, state := st5\<rparr>)"
  by (simp add: play_before_goal_def play_before_enemies_def Let_def split_def)

text \<open>The loop over the enemies, taken apart at one enemy: what the loop has made of the
  player before it comes to the enemy, the body of the loop at that enemy, and the rest.\<close>

lemma enemy_contacts_append:
  "enemy_contacts (xs @ ys) ps =
     (case enemy_contacts xs ps of (xs', ps') \<Rightarrow>
        case enemy_contacts ys ps' of (ys', ps'') \<Rightarrow> (xs' @ ys', ps''))"
  by (induction xs arbitrary: ps) (simp_all add: split_def)

lemma length_enemy_contacts: "length (fst (enemy_contacts es ps)) = length es"
  by (induction es arbitrary: ps) (simp_all add: split_def)

lemma enemy_contacts_nth:
  assumes "k < length es"
  shows "fst (enemy_contacts es ps) ! k =
           fst (enemy_contact (es ! k) (snd (enemy_contacts (take k es) ps)))"
    and "snd (enemy_contacts (take (Suc k) es) ps) =
           snd (enemy_contact (es ! k) (snd (enemy_contacts (take k es) ps)))"
proof -
  have es: "es = take k es @ es ! k # drop (Suc k) es"
    using assms by (simp add: id_take_nth_drop)
  have "fst (enemy_contacts (take k es @ es ! k # drop (Suc k) es) ps) ! k =
           fst (enemy_contact (es ! k) (snd (enemy_contacts (take k es) ps)))"
    using assms
    by (simp add: enemy_contacts_append split_def nth_append length_enemy_contacts)
  with es show "fst (enemy_contacts es ps) ! k =
           fst (enemy_contact (es ! k) (snd (enemy_contacts (take k es) ps)))"
    by simp
  have "take (Suc k) es = take k es @ [es ! k]"
    using assms by (simp add: take_Suc_conv_app_nth)
  then show "snd (enemy_contacts (take (Suc k) es) ps) =
           snd (enemy_contact (es ! k) (snd (enemy_contacts (take k es) ps)))"
    by (simp add: enemy_contacts_append split_def)
qed

lemma play_before_goal_enemies:
  "enemies (store (play_before_goal inp g)) =
     fst (enemy_contacts (enemies (store (play_before_enemies inp g)))
            (player (play_before_enemies inp g), state (play_before_enemies inp g)))"
  "(player (play_before_goal inp g), state (play_before_goal inp g)) =
     fall_check (snd (enemy_contacts (enemies (store (play_before_enemies inp g)))
            (player (play_before_enemies inp g), state (play_before_enemies inp g))))"
  by (simp_all add: play_before_goal_def Let_def split_def)

lemma enemy_contact_cases:
  assumes "e_active e \<noteq> 0" and "aabb_int (int_rect (r p)) (e_r e)"
  shows "(0 < vy p \<and> fsub (fadd (fy (r p)) (fh (r p))) (float_of_int (ry (e_r e))) < 16 \<longrightarrow>
            enemy_contact e (p, st) =
              (e\<lparr>e_active := 0\<rparr>,
               p\<lparr>vy := fmul JUMP_VEL (f32 (6 / 10)), score := score p + 200\<rparr>, st)) \<and>
         (\<not> (0 < vy p \<and> fsub (fadd (fy (r p)) (fh (r p))) (float_of_int (ry (e_r e))) < 16) \<and>
          big p = 0 \<longrightarrow>
            enemy_contact e (p, st) =
              (e,
               p\<lparr>lives := lives p - 1, r := (r p)\<lparr>fx := px (spawn p), fy := py (spawn p)\<rparr>,
                 vx := 0, vy := 0\<rparr>,
               if lives p - 1 \<le> 0 then STATE_GAME_OVER else st))"
  using assms by (auto simp: enemy_contact_def lose_life_def respawn_def Let_def)

text \<open>
  C3, amended. In every pass of the play update, when the loop over the enemies comes to an
  active enemy that the player's rectangle, rounded to integer coordinates, overlaps, the
  player \<open>p\<close> being as the enemies before it in the array have left it: if the player falls
  (\<open>vy > 0\<close>) and \<open>(y + h) - enemy.y\<close>, computed in single precision, is less than 16, the
  enemy is deactivated, the score grows by 200 and \<open>vy\<close> becomes \<open>JUMP_VEL * 0.6f\<close>;
  otherwise, if the player is not big, it loses exactly one life, stands at the spawn
  point and has both velocities zero, and the state is \<open>STATE_GAME_OVER\<close> when no life is
  left. The loop goes on with that player, and what it has made of the enemies and the
  player is, after the fall check, the outcome of the pass.
\<close>

theorem enemy_contacts_stomp_or_hurt:
  assumes "g3 = play_before_enemies inp g" and "es = enemies (store g3)" and "k < length es"
    and "snd (enemy_contacts (take k es) (player g3, state g3)) = (p, st)"
    and "e_active (es ! k) \<noteq> 0" and "aabb_int (int_rect (r p)) (e_r (es ! k))"
  shows "(0 < vy p \<and> fsub (fadd (fy (r p)) (fh (r p))) (float_of_int (ry (e_r (es ! k)))) < 16 \<longrightarrow>
            snd (enemy_contacts (take (Suc k) es) (player g3, state g3)) =
              (p\<lparr>vy := fmul JUMP_VEL (f32 (6 / 10)), score := score p + 200\<rparr>, st) \<and>
            enemies (store (play_before_goal inp g)) ! k = (es ! k)\<lparr>e_active := 0\<rparr>) \<and>
         (\<not> (0 < vy p \<and>
             fsub (fadd (fy (r p)) (fh (r p))) (float_of_int (ry (e_r (es ! k)))) < 16) \<and>
          big p = 0 \<longrightarrow>
            snd (enemy_contacts (take (Suc k) es) (player g3, state g3)) =
              (p\<lparr>lives := lives p - 1, r := (r p)\<lparr>fx := px (spawn p), fy := py (spawn p)\<rparr>,
                 vx := 0, vy := 0\<rparr>,
               if lives p - 1 \<le> 0 then STATE_GAME_OVER else st) \<and>
            enemies (store (play_before_goal inp g)) ! k = es ! k) \<and>
         (player (play_before_goal inp g), state (play_before_goal inp g)) =
            fall_check (snd (enemy_contacts es (player g3, state g3)))"
proof -
  note c = enemy_contact_cases [OF assms(5,6), of st]
  note n = enemy_contacts_nth [OF assms(3), of "(player g3, state g3)", unfolded assms(4)]
  have en: "enemies (store (play_before_goal inp g)) = fst (enemy_contacts es (player g3, state g3))"
    unfolding assms(1,2) by (rule play_before_goal_enemies)
  have fin: "(player (play_before_goal inp g), state (play_before_goal inp g)) =
            fall_check (snd (enemy_contacts es (player g3, state g3)))"
    unfolding assms(1,2) by (rule play_before_goal_enemies)
  show ?thesis
    unfolding en n using c fin by auto
qed

text \<open>In \<open>two_enemy_game\<close> the loop comes to the first enemy with the falling player, which
  stomps it, and to the second enemy with the player that the first has sent upwards,
  which loses one of three lives.\<close>

theorem enemy_contacts_stomp_or_hurt_witness:
  "e_active (enemies (store (play_before_enemies early_input two_enemy_game)) ! 0) \<noteq> 0 \<and>
   aabb_int (int_rect (r (player (play_before_enemies early_input two_enemy_game))))
     (e_r (enemies (store (play_before_enemies early_input two_enemy_game)) ! 0)) \<and>
   snd (enemy_contacts (take 1 (enemies (store (play_before_enemies early_input two_enemy_game))))
       (player (play_before_enemies early_input two_enemy_game), STATE_PLAY)) =
     ((player (play_before_enemies early_input two_enemy_game))
        \<lparr>vy := - (15099495 / 2097152), score := 900\<rparr>, STATE_PLAY) \<and>
   e_active (enemies (store (play_before_goal early_input two_enemy_game)) ! 0) = 0 \<and>
   snd (enemy_contacts (take 2 (enemies (store (play_before_enemies early_input two_enemy_game))))
       (player (play_before_enemies early_input two_enemy_game), STATE_PLAY)) =
     ((player (play_before_enemies early_input two_enemy_game))
        \<lparr>vy := 0, score := 900, lives := 2, r := \<lparr>fx = 60, fy = 248, fw = 36, fh = 40\<rparr>\<rparr>,
      STATE_PLAY) \<and>
   enemies (store (play_before_goal early_input two_enemy_game)) ! 1 =
     enemies (store (play_before_enemies early_input two_enemy_game)) ! 1 \<and>
   lives (player (play_before_goal early_input two_enemy_game)) = 2"
proof -
  let ?g3 = "play_before_enemies early_input two_enemy_game"
  let ?es = "enemies (store ?g3)"
  let ?p = "player ?g3"
  let ?p1 = "?p\<lparr>vy := fmul JUMP_VEL (f32 (6 / 10)), score := score ?p + 200\<rparr>"
  have st: "state ?g3 = STATE_PLAY" by code_simp
  have len: "0 < length ?es" "1 < length ?es" by code_simp+
  have s0: "snd (enemy_contacts (take 0 ?es) (?p, state ?g3)) = (?p, STATE_PLAY)"
    by (simp add: st)
  have a0: "e_active (?es ! 0) \<noteq> 0" "aabb_int (int_rect (r ?p)) (e_r (?es ! 0))" by code_simp+
  have stomp: "0 < vy ?p \<and>
      fsub (fadd (fy (r ?p)) (fh (r ?p))) (float_of_int (ry (e_r (?es ! 0)))) < 16"
    by code_simp
  note t0 = enemy_contacts_stomp_or_hurt [OF refl refl len(1) s0 a0]
  from t0 stomp have r0: "snd (enemy_contacts (take (Suc 0) ?es) (?p, state ?g3)) = (?p1, STATE_PLAY)"
      "enemies (store (play_before_goal early_input two_enemy_game)) ! 0 = (?es ! 0)\<lparr>e_active := 0\<rparr>"
    by blast+
  have a1: "e_active (?es ! 1) \<noteq> 0" "aabb_int (int_rect (r ?p1)) (e_r (?es ! 1))" by code_simp+
  have hurt: "\<not> (0 < vy ?p1 \<and>
      fsub (fadd (fy (r ?p1)) (fh (r ?p1))) (float_of_int (ry (e_r (?es ! 1)))) < 16) \<and> big ?p1 = 0"
    by code_simp
  have s1: "snd (enemy_contacts (take 1 ?es) (?p, state ?g3)) = (?p1, STATE_PLAY)"
    using r0(1) by simp
  note t1 = enemy_contacts_stomp_or_hurt [OF refl refl len(2) s1 a1]
  from t1 hurt have r1: "snd (enemy_contacts (take (Suc 1) ?es) (?p, state ?g3)) =
      (?p1\<lparr>lives := lives ?p1 - 1, r := (r ?p1)\<lparr>fx := px (spawn ?p1), fy := py (spawn ?p1)\<rparr>,
            vx := 0, vy := 0\<rparr>,
       if lives ?p1 - 1 \<le> 0 then STATE_GAME_OVER else STATE_PLAY)"
      "enemies (store (play_before_goal early_input two_enemy_game)) ! 1 = ?es ! 1"
    by blast+
  have fin: "(player (play_before_goal early_input two_enemy_game),
        state (play_before_goal early_input two_enemy_game)) =
      fall_check (snd (enemy_contacts ?es (?p, state ?g3)))"
    using t0 by blast
  have v: "fmul JUMP_VEL (f32 (6 / 10)) = - (15099495 / 2097152)" "score ?p + 200 = 900"
    "lives ?p - 1 = 2" "px (spawn ?p) = 60" "py (spawn ?p) = 248"
    "(r ?p)\<lparr>fx := 60, fy := 248\<rparr> = \<lparr>fx = 60, fy = 248, fw = 36, fh = 40\<rparr>"
    "vx ?p = 0"
    by code_simp+
  have l: "lives (player (play_before_goal early_input two_enemy_game)) = 2" by code_simp
  show ?thesis
    using r0 [unfolded st v] r1 [unfolded st v] a0 l by (simp add: v numeral_2_eq_2)
qed

text \<open>
  The claim as it stands fails in three ways. The player whose bottom edge is
  \<open>16 - 2^-16\<close> below the enemy's top is within 16 pixels, but the sum \<open>y + h\<close> is rounded to
  264 and the difference is 16: the player loses a life. The walking player whose
  rectangle reaches a quarter of a pixel into the enemy's overlaps it, but its rounded
  rectangle does not, and nothing happens. And in a pass in which the falling player
  overlaps two active enemies, within 16 pixels of the top of both, only the first is
  stomped: the second takes a life.
\<close>

theorem enemy_contact_not_as_stated:
  "e_active enemy_1 \<noteq> 0 \<and> big late_stomper = 0 \<and> 0 < vy late_stomper \<and>
   aabb_int (int_rect (r late_stomper)) (e_r enemy_1) \<and>
   fy (r late_stomper) + fh (r late_stomper) - of_int (ry (e_r enemy_1)) = 16 - 1 / 2 ^ 16 \<and>
   enemy_contact enemy_1 (late_stomper, STATE_PLAY) =
     (enemy_1, late_stomper\<lparr>lives := 2, r := \<lparr>fx = 60, fy = 248, fw = 36, fh = 40\<rparr>, vx := 0, vy := 0\<rparr>,
      STATE_PLAY) \<and>
   big grazing_walker = 0 \<and> vy grazing_walker = 0 \<and>
   overlaps (r grazing_walker) (e_r enemy_1) \<and>
   enemy_contact enemy_1 (grazing_walker, STATE_PLAY) = (enemy_1, grazing_walker, STATE_PLAY) \<and>
   map e_active (enemies (store (play_before_enemies early_input two_enemy_game))) = [1, 1] \<and>
   list_all (\<lambda>e. aabb_int (int_rect (r (player (play_before_enemies early_input two_enemy_game)))) (e_r e))
     (enemies (store (play_before_enemies early_input two_enemy_game))) \<and>
   0 < vy (player (play_before_enemies early_input two_enemy_game)) \<and>
   list_all (\<lambda>e. fy (r (player (play_before_enemies early_input two_enemy_game))) +
        fh (r (player (play_before_enemies early_input two_enemy_game))) - of_int (ry (e_r e)) < 16)
     (enemies (store (play_before_enemies early_input two_enemy_game))) \<and>
   frame early_input two_enemy_game \<noteq> None \<and>
   map e_active (enemies (store (the (frame early_input two_enemy_game)))) = [0, 1] \<and>
   score (player (the (frame early_input two_enemy_game))) = score (player two_enemy_game) + 200 \<and>
   lives (player (the (frame early_input two_enemy_game))) = lives (player two_enemy_game) - 1"
  by code_simp

section \<open>Reaching the goal\<close>

lemma lives_big_timer_step: "lives (big_timer_step p) = lives p"
  by (simp add: big_timer_step_def shrink_def Let_def)

lemma play_before_goal_clock:
  "level_time (play_before_goal inp g) = level_time g" "t0 (play_before_goal inp g) = t0 g"
  "level_idx (play_before_goal inp g) = level_idx g"
  by (simp_all add: play_before_goal_def play_before_enemies_def Let_def split_def)

lemma state_level_timer_step:
  "state (level_timer_step now g) =
     (if time_left now g \<le> 0 \<and> lives (player g) - 1 \<le> 0 then STATE_GAME_OVER else state g)"
  "level_idx (level_timer_step now g) = level_idx g"
  by (simp_all add: level_timer_step_def lose_life_def respawn_def Let_def split_def)

lemma state_play_update:
  "state (play_update inp g) =
     (if time_left (ticks inp) g \<le> 0 \<and> lives (player (play_before_goal inp g)) - 1 \<le> 0
      then STATE_GAME_OVER
      else goal_check (store (play_before_goal inp g)) (player (play_before_goal inp g))
             (state (play_before_goal inp g)))"
  "level_idx (play_update inp g) = level_idx g"
  by (simp_all add: play_update_def Let_def state_level_timer_step lives_big_timer_step
        time_left_def play_before_goal_clock)

lemma handle_keydown_level_clear:
  assumes "state g = STATE_LEVEL_CLEAR" and "0 \<le> level_idx g" and "level_idx g < NUM_LEVELS"
    and "k \<noteq> SDLK_RETURN"
  shows "\<exists>g'. handle_keydown now k g = Some g' \<and> state g' = STATE_LEVEL_CLEAR \<and>
           level_idx g' = level_idx g"
proof (cases "k = SDLK_r")
  case True
  with assms start_level_keeps [OF assms(2,3), of now g] show ?thesis
    by (auto simp: handle_keydown_def Let_def)
next
  case False
  with assms show ?thesis
    by (cases k) (simp_all add: handle_keydown_def Let_def)
qed

lemma handle_event_level_clear:
  assumes "state g = STATE_LEVEL_CLEAR" and "0 \<le> level_idx g" and "level_idx g < NUM_LEVELS"
    and "ev \<noteq> SDL_KEYDOWN SDLK_RETURN"
  shows "\<exists>g'. handle_event now ev g = Some g' \<and> state g' = STATE_LEVEL_CLEAR \<and>
           level_idx g' = level_idx g"
proof (cases ev)
  case SDL_QUIT
  with assms show ?thesis by (simp add: handle_event_def)
next
  case (SDL_KEYDOWN k)
  with assms handle_keydown_level_clear [OF assms(1-3), of k now] show ?thesis
    by (simp add: handle_event_def)
next
  case SDL_other_event
  with assms show ?thesis by (simp add: handle_event_def)
qed

lemma poll_events_level_clear:
  assumes "state g = STATE_LEVEL_CLEAR" and "0 \<le> level_idx g" and "level_idx g < NUM_LEVELS"
    and "SDL_KEYDOWN SDLK_RETURN \<notin> set evs"
  shows "\<exists>g'. poll_events now evs g = Some g' \<and> state g' = STATE_LEVEL_CLEAR \<and>
           level_idx g' = level_idx g"
  using assms
proof (induction evs arbitrary: g)
  case Nil
  then show ?case by simp
next
  case (Cons ev evs)
  from Cons.prems have "ev \<noteq> SDL_KEYDOWN SDLK_RETURN" by auto
  from handle_event_level_clear [OF Cons.prems(1-3) this, of now]
  obtain g1 where g1: "handle_event now ev g = Some g1" "state g1 = STATE_LEVEL_CLEAR"
      "level_idx g1 = level_idx g"
    by blast
  with Cons.prems have "\<exists>g'. poll_events now evs g1 = Some g' \<and> state g' = STATE_LEVEL_CLEAR \<and>
           level_idx g' = level_idx g1"
    by (intro Cons.IH) simp_all
  with g1 show ?case by simp
qed

lemma run_frames_level_clear:
  assumes "state g = STATE_LEVEL_CLEAR" and "0 \<le> level_idx g" and "level_idx g < NUM_LEVELS"
    and "\<forall>i\<in>set inps. SDL_KEYDOWN SDLK_RETURN \<notin> set (events i)"
  shows "\<exists>g'. run_frames inps g = Some g' \<and> state g' = STATE_LEVEL_CLEAR \<and>
           level_idx g' = level_idx g"
  using assms
proof (induction inps arbitrary: g)
  case Nil
  then show ?case by simp
next
  case (Cons inp inps)
  show ?case
  proof (cases "running g = 0")
    case True
    with Cons.prems show ?thesis by simp
  next
    case False
    from Cons.prems have "SDL_KEYDOWN SDLK_RETURN \<notin> set (events inp)" by simp
    from poll_events_level_clear [OF Cons.prems(1-3) this, of "ticks inp"]
    obtain g1 where g1: "poll_events (ticks inp) (events inp) g = Some g1"
        "state g1 = STATE_LEVEL_CLEAR" "level_idx g1 = level_idx g"
      by blast
    then have fr: "frame inp g = Some g1" by (simp add: frame_def)
    from g1 Cons.prems have "\<exists>g'. run_frames inps g1 = Some g' \<and> state g' = STATE_LEVEL_CLEAR \<and>
           level_idx g' = level_idx g1"
      by (intro Cons.IH) simp_all
    with False fr g1 show ?thesis by simp
  qed
qed

text \<open>
  C2, amended. Take a pass of the loop in which the state is \<open>STATE_PLAY\<close> after the events,
  on a level of the table, and in which, when the goal check is reached, a goal exists
  and the player's rectangle, rounded to integer coordinates as the goal check tests it,
  overlaps it. Unless the level timer runs out in that same pass and takes the
  player's last life, the pass ends in \<open>STATE_LEVEL_CLEAR\<close>. From then on the play update
  no longer runs: over any number of further passes in which Enter is not pressed the
  state stays \<open>STATE_LEVEL_CLEAR\<close> and the level index stays the same, wherever the
  player's rectangle is.
\<close>

theorem goal_reached_once:
  assumes "poll_events (ticks inp) (events inp) g0 = Some g" and "state g = STATE_PLAY"
    and "0 \<le> level_idx g" and "level_idx g < NUM_LEVELS"
    and "goal_exists (store (play_before_goal inp g)) \<noteq> 0"
    and "aabb_int (int_rect (r (player (play_before_goal inp g))))
           (goal_rect (store (play_before_goal inp g)))"
    and "0 < time_left (ticks inp) g \<or> 1 < lives (player (play_before_goal inp g))"
    and "\<forall>i\<in>set inps. SDL_KEYDOWN SDLK_RETURN \<notin> set (events i)"
  shows "\<exists>gc g'. frame inp g0 = Some gc \<and> state gc = STATE_LEVEL_CLEAR \<and>
           run_frames inps gc = Some g' \<and> state g' = STATE_LEVEL_CLEAR \<and>
           level_idx g' = level_idx g"
proof -
  have fr: "frame inp g0 = Some (play_update inp g)"
    using assms(1,2) by (simp add: frame_def)
  have st: "state (play_update inp g) = STATE_LEVEL_CLEAR"
    using assms(5-7) by (auto simp: state_play_update goal_check_def)
  have idx: "level_idx (play_update inp g) = level_idx g"
    by (simp add: state_play_update)
  from run_frames_level_clear [OF st, of inps] assms(3,4,8) idx
  obtain g' where "run_frames inps (play_update inp g) = Some g'" "state g' = STATE_LEVEL_CLEAR"
      "level_idx g' = level_idx g"
    by auto
  with fr st show ?thesis by blast
qed

text \<open>After one second the player in the goal ends the pass in \<open>STATE_LEVEL_CLEAR\<close>, and two
  more passes with the keys \<open>z\<close> and \<open>r\<close> leave it there.\<close>

theorem goal_reached_once_witness:
  "map_option state (frame early_input goal_game) = Some STATE_LEVEL_CLEAR \<and>
   map_option state (run_frames idle_inputs (the (frame early_input goal_game)))
     = Some STATE_LEVEL_CLEAR \<and>
   map_option level_idx (run_frames idle_inputs (the (frame early_input goal_game))) = Some 0"
proof -
  have a1: "poll_events (ticks early_input) (events early_input) goal_game = Some goal_game"
    by code_simp
  have a2: "state goal_game = STATE_PLAY" by code_simp
  have a3: "0 \<le> level_idx goal_game" by code_simp
  have a4: "level_idx goal_game < NUM_LEVELS" by code_simp
  have a5: "goal_exists (store (play_before_goal early_input goal_game)) \<noteq> 0" by code_simp
  have a6: "aabb_int (int_rect (r (player (play_before_goal early_input goal_game))))
           (goal_rect (store (play_before_goal early_input goal_game)))"
    by code_simp
  have "0 < time_left (ticks early_input) goal_game" by code_simp
  then have a7: "0 < time_left (ticks early_input) goal_game \<or>
      1 < lives (player (play_before_goal early_input goal_game))" ..
  have a8: "\<forall>i\<in>set idle_inputs. SDL_KEYDOWN SDLK_RETURN \<notin> set (events i)"
    by (simp add: idle_inputs_def)
  have idx: "level_idx goal_game = 0" by code_simp
  from goal_reached_once [OF a1 a2 a3 a4 a5 a6 a7 a8] idx show ?thesis
    by auto
qed

text \<open>
  The claim as it stands fails in two ways. On the last life it fails when the timer runs
  out in the pass that reaches the goal: the goal check sets \<open>STATE_LEVEL_CLEAR\<close>, and the
  timer check after it takes the life and sets \<open>STATE_GAME_OVER\<close>. And it fails for a player
  whose rectangle reaches a quarter of a pixel into the goal rectangle: the rounded
  rectangle ends at the goal's left edge, the goal check finds no overlap, and the state
  stays \<open>STATE_PLAY\<close>, pass after pass.
\<close>

theorem goal_overlap_without_level_clear:
  "state goal_game = STATE_PLAY \<and> lives (player goal_game) = 1 \<and>
   goal_exists (store (play_before_goal late_input goal_game)) \<noteq> 0 \<and>
   aabb_int (int_rect (r (player (play_before_goal late_input goal_game))))
     (goal_rect (store (play_before_goal late_input goal_game))) \<and>
   lives (player (play_before_goal late_input goal_game)) = 1 \<and>
   time_left (ticks late_input) goal_game = 0 \<and>
   map_option state (frame late_input goal_game) = Some STATE_GAME_OVER \<and>
   state grazing_goal_game = STATE_PLAY \<and> lives (player grazing_goal_game) = 1 \<and>
   goal_exists (store (play_before_goal early_input grazing_goal_game)) \<noteq> 0 \<and>
   overlaps (r (player (play_before_goal early_input grazing_goal_game)))
     (goal_rect (store (play_before_goal early_input grazing_goal_game))) \<and>
   time_left (ticks early_input) grazing_goal_game = 299 \<and>
   map_option state (frame early_input grazing_goal_game) = Some STATE_PLAY \<and>
   map_option state (run_frames [early_input, early_input, early_input] grazing_goal_game)
     = Some STATE_PLAY"
  by code_simp

end
